theory Spec2Isabelle
  imports Complex_Main "HOL-Library.Multiset"
begin

section \<open>Data model (types.ts)\<close>

text \<open>
  \<^verbatim>\<open>NoteColor\<close> is a closed union of six string literals; \<^verbatim>\<open>Note\<close> is an interface
  with six fields. The field \<^verbatim>\<open>id\<close> is written \<open>id_note\<close> because \<open>id\<close> is the identity
  function of HOL. Timestamps are the integer milliseconds of \<^verbatim>\<open>Date.now()\<close>; the
  rotation is a real number. Strings are lists of characters.
\<close>

datatype NoteColor = Yellow | Pink | Blue | Green | Purple | Orange

record Note =
  id_note :: string
  content :: string
  date :: string
  timestamp :: int
  color :: NoteColor
  rotation :: real

text \<open>
  A JavaScript \<^verbatim>\<open>Date\<close> is read by the application only through its local-time getters
  \<^verbatim>\<open>getFullYear\<close>, \<^verbatim>\<open>getMonth\<close> (0 to 11) and \<^verbatim>\<open>getDate\<close> (1 to 31). The model keeps
  these three local readings, and the milliseconds since local midnight, so that two
  different instants of one calendar day are different values.
\<close>

record Date =
  getFullYear :: int
  getMonth :: nat
  getDate :: nat
  msOfDay :: nat

section \<open>Strings of numbers, padding, trimming\<close>

definition digit_char :: "nat \<Rightarrow> char" where
  "digit_char d = ''0123456789'' ! d"

text \<open>\<^verbatim>\<open>String(n)\<close> for a non-negative integer: its decimal digits, no leading zero.\<close>

fun string_of_nat :: "nat \<Rightarrow> string" where
  "string_of_nat n =
     (if n < 10 then [digit_char n]
      else string_of_nat (n div 10) @ [digit_char (n mod 10)])"

declare string_of_nat.simps [simp del]

text \<open>\<^verbatim>\<open>String(i)\<close> and \<^verbatim>\<open>i.toString()\<close> for an integer: a minus sign for negatives.\<close>

definition string_of_int :: "int \<Rightarrow> string" where
  "string_of_int i =
     (if i < 0 then CHR ''-'' # string_of_nat (nat (- i)) else string_of_nat (nat i))"

text \<open>\<^verbatim>\<open>s.padStart(n, '0')\<close>: zeros in front up to length \<open>n\<close>, nothing when long enough.\<close>

definition padStart :: "nat \<Rightarrow> char \<Rightarrow> string \<Rightarrow> string" where
  "padStart n c s = replicate (n - length s) c @ s"

text \<open>
  \<^verbatim>\<open>toISODateString\<close> (App.tsx, lines 12 to 17): year, month plus one and day from the
  local getters, month and day padded to two digits, joined by hyphens.
\<close>

definition toISODateString :: "Date \<Rightarrow> string" where
  "toISODateString d =
     (let year = getFullYear d;
          month = padStart 2 (CHR ''0'') (string_of_nat (getMonth d + 1));
          day = padStart 2 (CHR ''0'') (string_of_nat (getDate d))
      in string_of_int year @ ''-'' @ month @ ''-'' @ day)"

text \<open>
  \<^verbatim>\<open>String.prototype.trim\<close> removes white space and line terminators from both ends.
  Of the code points ECMAScript lists, those a one-byte character can hold are
  tab, line feed, vertical tab, form feed, carriage return, space and no-break space.
\<close>

definition isWhiteSpace :: "char \<Rightarrow> bool" where
  "isWhiteSpace c = (of_char c \<in> {9, 10, 11, 12, 13, 32, 160 :: nat})"

definition trim :: "string \<Rightarrow> string" where
  "trim s = rev (dropWhile isWhiteSpace (rev (dropWhile isWhiteSpace s)))"

section \<open>Array.prototype.sort\<close>

text \<open>
  \<^verbatim>\<open>Array.prototype.sort\<close> with a comparator is a stable sort (ECMAScript 2019): an element
  goes before another when the comparator is negative, and elements that compare as equal
  keep the order they have in the array. Stable insertion computes that result: each
  element, taken from the right, is put in front of the first element it does not have
  to follow.
\<close>

fun insert_by :: "('a \<Rightarrow> 'a \<Rightarrow> int) \<Rightarrow> 'a \<Rightarrow> 'a list \<Rightarrow> 'a list" where
  "insert_by cmp x [] = [x]"
| "insert_by cmp x (y # ys) =
     (if cmp x y \<le> 0 then x # y # ys else y # insert_by cmp x ys)"

definition array_sort :: "('a \<Rightarrow> 'a \<Rightarrow> int) \<Rightarrow> 'a list \<Rightarrow> 'a list" where
  "array_sort cmp xs = foldr (insert_by cmp) xs []"

section \<open>The Date Index: getNotesForDate\<close>

text \<open>
  App.tsx, lines 121 to 124:
  \<^verbatim>\<open>notes.filter(n => n.date === dateStr).sort((a, b) => b.timestamp - a.timestamp)\<close>.
  The store \<open>ns\<close> is a parameter, since the function reads the component's state.
\<close>

definition getNotesForDate :: "Note list \<Rightarrow> Date \<Rightarrow> Note list" where
  "getNotesForDate ns d =
     (let dateStr = toISODateString d
      in array_sort (\<lambda>a b. timestamp b - timestamp a) (filter (\<lambda>n. date n = dateStr) ns))"

section \<open>The random source and the palette\<close>

text \<open>
  \<^verbatim>\<open>Math.random()\<close> returns a number that is at least 0 and less than 1. The type
  \<open>random01\<close> holds exactly those outcomes, so a statement about every \<open>random01\<close> is a
  statement about every outcome of the random source.
\<close>

typedef random01 = "{r :: real. 0 \<le> r \<and> r < 1}"
  by (rule exI [of _ 0]) simp

setup_lifting type_definition_random01

lift_definition random_zero :: random01 is "0"
  by simp

lift_definition random_half :: random01 is "1 / 2"
  by simp

text \<open>\<^verbatim>\<open>Math.floor(Math.random() * n)\<close> for an array length \<open>n\<close>.\<close>

definition random_index :: "random01 \<Rightarrow> nat \<Rightarrow> nat" where
  "random_index r n = nat \<lfloor>Rep_random01 r * real n\<rfloor>"

definition COLORS :: "NoteColor list" where
  "COLORS = [Yellow, Pink, Blue, Green, Purple, Orange]"

text \<open>
  \<^verbatim>\<open>getRandomColor\<close> (App.tsx, lines 126 to 133), with the array it reads as a
  parameter; the application calls it on \<open>COLORS\<close>. The argument \<^verbatim>\<open>excludeColor\<close> is optional:
  \<open>None\<close> is \<^verbatim>\<open>undefined\<close>, and every colour is a non-empty string, hence truthy. The index
  is below the length of the array it reads whenever that array is not empty; on an
  empty palette JavaScript would give \<^verbatim>\<open>undefined\<close>, which no statement below relies on.
\<close>

definition getRandomColorFrom ::
  "NoteColor list \<Rightarrow> random01 \<Rightarrow> NoteColor option \<Rightarrow> NoteColor" where
  "getRandomColorFrom palette r excludeColor =
     (let availableColors =
            (case excludeColor of
               Some e \<Rightarrow> filter (\<lambda>c. c \<noteq> e) palette
             | None \<Rightarrow> palette)
      in if length availableColors = 0
         then palette ! random_index r (length palette)
         else availableColors ! random_index r (length availableColors))"

definition getRandomColor :: "random01 \<Rightarrow> NoteColor option \<Rightarrow> NoteColor" where
  "getRandomColor = getRandomColorFrom COLORS"

section \<open>The state of the App component and its handlers\<close>

datatype View = Daily | Calendar

text \<open>One field for each \<^verbatim>\<open>useState\<close> of \<^verbatim>\<open>App\<close> (App.tsx, lines 56 to 72); the state
  variable \<^verbatim>\<open>notes\<close> is written \<open>notes_state\<close>, since \<open>notes\<close> is a keyword of Isabelle.\<close>

record AppState =
  view :: View
  isGridMode :: bool
  currentDate :: Date
  notes_state :: "Note list"
  isModalOpen :: bool
  isDrawerOpen :: bool
  isDeleteConfirmOpen :: bool
  actionNote :: "Note option"
  editingNoteId :: "string option"
  newNoteContent :: string
  newNoteColor :: NoteColor

text \<open>
  The state of a first start at the instant \<open>today\<close>: nothing is in the browser storage,
  so the store is empty.
\<close>

definition initialState :: "Date \<Rightarrow> AppState" where
  "initialState today =
     \<lparr>view = Daily, isGridMode = False, currentDate = today, notes_state = [],
      isModalOpen = False, isDrawerOpen = False, isDeleteConfirmOpen = False,
      actionNote = None, editingNoteId = None,
      newNoteContent = [], newNoteColor = Yellow\<rparr>"

text \<open>
  \<^verbatim>\<open>handleVisibilityChange\<close> (lines 93 to 106): \<open>visible\<close> is
  \<^verbatim>\<open>document.visibilityState === 'visible'\<close>, \<open>today\<close> is \<^verbatim>\<open>new Date()\<close>.
\<close>

definition handleVisibilityChange :: "bool \<Rightarrow> Date \<Rightarrow> AppState \<Rightarrow> AppState" where
  "handleVisibilityChange visible today s =
     (if visible
      then s\<lparr>currentDate :=
               (let prevDate = currentDate s;
                    todayString = toISODateString today;
                    prevDateString = toISODateString prevDate
                in if todayString \<noteq> prevDateString then today else prevDate)\<rparr>
      else s)"

definition handleDateChange :: "Date \<Rightarrow> AppState \<Rightarrow> AppState" where
  "handleDateChange d s = s\<lparr>currentDate := d, view := Daily, isGridMode := False\<rparr>"

text \<open>\<^verbatim>\<open>openNewNoteModal\<close> (lines 135 to 143); \<open>r\<close> is the outcome of \<^verbatim>\<open>Math.random()\<close>.\<close>

definition openNewNoteModal :: "random01 \<Rightarrow> AppState \<Rightarrow> AppState" where
  "openNewNoteModal r s =
     (let currentDayNotes = getNotesForDate (notes_state s) (currentDate s);
          lastNoteColor =
            (case currentDayNotes of [] \<Rightarrow> None | n # _ \<Rightarrow> Some (color n))
      in s\<lparr>newNoteContent := [],
           newNoteColor := getRandomColor r lastNoteColor,
           editingNoteId := None,
           isModalOpen := True\<rparr>)"

text \<open>
  \<^verbatim>\<open>if (editingNoteId)\<close>: \<^verbatim>\<open>null\<close> and the empty string are falsy, every other string
  is truthy.
\<close>

definition truthy :: "string option \<Rightarrow> bool" where
  "truthy x = (case x of None \<Rightarrow> False | Some i \<Rightarrow> i \<noteq> [])"

text \<open>
  \<^verbatim>\<open>handleSaveNote\<close> (lines 145 to 171). The object literal of the new note reads the
  clock twice, \<open>nowId\<close> for \<^verbatim>\<open>id: Date.now().toString()\<close> and then \<open>nowTs\<close> for
  \<^verbatim>\<open>timestamp: Date.now()\<close>, and the random source once, \<open>r\<close>, for the rotation.
  An empty string is falsy, so \<^verbatim>\<open>!newNoteContent.trim()\<close> holds exactly when the trimmed
  buffer is empty.
\<close>

definition handleSaveNote :: "int \<Rightarrow> int \<Rightarrow> random01 \<Rightarrow> AppState \<Rightarrow> AppState" where
  "handleSaveNote nowId nowTs r s =
     (if trim (newNoteContent s) = [] then s
      else
        (let s' =
           (if truthy (editingNoteId s)
            then s\<lparr>notes_state :=
                     map (\<lambda>n. if Some (id_note n) = editingNoteId s
                               then n\<lparr>content := newNoteContent s\<rparr>
                               else n)
                         (notes_state s)\<rparr>
            else
              (let newNote =
                     \<lparr>id_note = string_of_int nowId,
                      content = newNoteContent s,
                      date = toISODateString (currentDate s),
                      timestamp = nowTs,
                      color = newNoteColor s,
                      rotation = Rep_random01 r * 6 - 3\<rparr>
               in s\<lparr>notes_state := newNote # notes_state s\<rparr>))
         in s'\<lparr>newNoteContent := [], editingNoteId := None, isModalOpen := False\<rparr>))"

definition handleLongPressNote :: "Note \<Rightarrow> AppState \<Rightarrow> AppState" where
  "handleLongPressNote n s = s\<lparr>actionNote := Some n, isDrawerOpen := True\<rparr>"

definition handleEditAction :: "AppState \<Rightarrow> AppState" where
  "handleEditAction s =
     (case actionNote s of
        Some a \<Rightarrow>
          s\<lparr>newNoteContent := content a,
            newNoteColor := color a,
            editingNoteId := Some (id_note a),
            isDrawerOpen := False,
            isModalOpen := True\<rparr>
      | None \<Rightarrow> s)"

definition handleDeleteAction :: "AppState \<Rightarrow> AppState" where
  "handleDeleteAction s = s\<lparr>isDrawerOpen := False, isDeleteConfirmOpen := True\<rparr>"

text \<open>\<^verbatim>\<open>confirmDelete\<close> (lines 193 to 199), the handler of the Discard button.\<close>

definition confirmDelete :: "AppState \<Rightarrow> AppState" where
  "confirmDelete s =
     (let s' =
        (case actionNote s of
           Some a \<Rightarrow> s\<lparr>notes_state := filter (\<lambda>n. id_note n \<noteq> id_note a) (notes_state s)\<rparr>
         | None \<Rightarrow> s)
      in s'\<lparr>isDeleteConfirmOpen := False, actionNote := None\<rparr>)"

definition toggleGridMode :: "AppState \<Rightarrow> AppState" where
  "toggleGridMode s = s\<lparr>isGridMode := \<not> isGridMode s\<rparr>"

definition handleViewSwitch :: "View \<Rightarrow> AppState \<Rightarrow> AppState" where
  "handleViewSwitch newView s =
     (let s' = s\<lparr>view := newView\<rparr>
      in if newView = Calendar then s'\<lparr>isGridMode := False\<rparr> else s')"

text \<open>
  The inline handlers of the markup: the backdrop of the action drawer (line 416), the
  backdrop of the delete confirmation and its Keep It button (lines 451 and 464), the
  backdrop and the close button of the editor (lines 487 and 505), and the text area
  (line 513).
\<close>

definition dismissDrawer :: "AppState \<Rightarrow> AppState" where
  "dismissDrawer s = s\<lparr>isDrawerOpen := False\<rparr>"

definition keepIt :: "AppState \<Rightarrow> AppState" where
  "keepIt s = s\<lparr>isDeleteConfirmOpen := False\<rparr>"

definition closeModal :: "AppState \<Rightarrow> AppState" where
  "closeModal s = s\<lparr>isModalOpen := False\<rparr>"

definition changeContent :: "string \<Rightarrow> AppState \<Rightarrow> AppState" where
  "changeContent v s = s\<lparr>newNoteContent := v\<rparr>"

section \<open>Sequences of events\<close>

text \<open>
  One event for each handler, carrying what the handler reads from outside the state:
  the clock, the random source, the visibility, the typed text, the note that was pressed.
  The markup offers an event only while its control is rendered; \<open>run\<close> accepts every
  sequence, so what holds for all runs holds for the runs the markup allows.
\<close>

datatype Event =
    VisibilityChange bool Date
  | DateChange Date
  | OpenNewNoteModal random01
  | ChangeContent string
  | SaveNote int int random01
  | LongPressNote Note
  | EditAction
  | DeleteAction
  | ConfirmDelete
  | KeepIt
  | DismissDrawer
  | CloseModal
  | ToggleGridMode
  | ViewSwitch View

fun step :: "AppState \<Rightarrow> Event \<Rightarrow> AppState" where
  "step s (VisibilityChange visible today) = handleVisibilityChange visible today s"
| "step s (DateChange d) = handleDateChange d s"
| "step s (OpenNewNoteModal r) = openNewNoteModal r s"
| "step s (ChangeContent v) = changeContent v s"
| "step s (SaveNote nowId nowTs r) = handleSaveNote nowId nowTs r s"
| "step s (LongPressNote n) = handleLongPressNote n s"
| "step s EditAction = handleEditAction s"
| "step s DeleteAction = handleDeleteAction s"
| "step s ConfirmDelete = confirmDelete s"
| "step s KeepIt = keepIt s"
| "step s DismissDrawer = dismissDrawer s"
| "step s CloseModal = closeModal s"
| "step s ToggleGridMode = toggleGridMode s"
| "step s (ViewSwitch v) = handleViewSwitch v s"

definition run :: "AppState \<Rightarrow> Event list \<Rightarrow> AppState" where
  "run s es = foldl step s es"

section \<open>The Daily Stack (components/DailyStack.tsx)\<close>

text \<open>
  The component keeps \<^verbatim>\<open>currentIndex\<close>, which starts at 0 and is only ever incremented,
  hence a natural number, and \<^verbatim>\<open>direction\<close>, which is 0, 1 or -1.
\<close>

record StackState =
  currentIndex :: nat
  direction :: int

definition initialStack :: StackState where
  "initialStack = \<lparr>currentIndex = 0, direction = 0\<rparr>"

text \<open>
  What the component renders (lines 17 to 42 and 58 to 114): the placeholder when the list
  is empty, otherwise the active card and the note computed for the background card,
  which is drawn only when the list has more than one note.
\<close>

datatype StackView =
    Placeholder
  | Cards (activeNote: Note) (nextNote: Note) (backgroundShown: bool)

definition DailyStack :: "Note list \<Rightarrow> StackState \<Rightarrow> StackView" where
  "DailyStack ns st =
     (if length ns = 0 then Placeholder
      else
        (let activeIndex = currentIndex st mod length ns;
             nextIndex = (currentIndex st + 1) mod length ns
         in Cards (ns ! activeIndex) (ns ! nextIndex) (length ns > 1)))"

text \<open>\<^verbatim>\<open>handleDragEnd\<close> (lines 28 to 34); \<open>x\<close> is \<^verbatim>\<open>info.offset.x\<close>.\<close>

definition handleDragEnd :: "real \<Rightarrow> StackState \<Rightarrow> StackState" where
  "handleDragEnd x st =
     (let swipeThreshold = 100
      in if \<bar>x\<bar> > swipeThreshold
         then st\<lparr>direction := (if x > 0 then 1 else - 1),
                 currentIndex := currentIndex st + 1\<rparr>
         else st)"

text \<open>
  The drag and pointer handlers are attributes of the active card, so they exist only in
  the \<open>Cards\<close> rendering. \<open>dragEnd\<close> is the effect of a drag that ends at offset \<open>x\<close>;
  \<open>longPress\<close> is the note handed to \<^verbatim>\<open>onLongPress\<close> when the 500 ms timer fires, if any.
\<close>

definition dragEnd :: "Note list \<Rightarrow> real \<Rightarrow> StackState \<Rightarrow> StackState" where
  "dragEnd ns x st =
     (case DailyStack ns st of
        Placeholder \<Rightarrow> st
      | Cards a n b \<Rightarrow> handleDragEnd x st)"

definition longPress :: "Note list \<Rightarrow> StackState \<Rightarrow> Note option" where
  "longPress ns st =
     (case DailyStack ns st of
        Placeholder \<Rightarrow> None
      | Cards a n b \<Rightarrow> Some a)"

section \<open>Notions used to state the properties\<close>

abbreviation ids :: "AppState \<Rightarrow> string list" where
  "ids s \<equiv> map id_note (notes_state s)"

text \<open>
  A save creates a note when it passes the check of the trimmed buffer and
  \<^verbatim>\<open>editingNoteId\<close> is falsy. \<open>createClocks s es\<close> lists, in order, the clock values read
  for the \<^verbatim>\<open>id\<close> by the saves of the run \<open>es\<close> from \<open>s\<close> that create a note.
\<close>

definition creates :: "AppState \<Rightarrow> bool" where
  "creates s = (trim (newNoteContent s) \<noteq> [] \<and> \<not> truthy (editingNoteId s))"

fun createClocks :: "AppState \<Rightarrow> Event list \<Rightarrow> int list" where
  "createClocks s [] = []"
| "createClocks s (SaveNote nowId nowTs r # es) =
     (if creates s then [nowId] else []) @ createClocks (step s (SaveNote nowId nowTs r)) es"
| "createClocks s (e # es) = createClocks (step s e) es"

text \<open>
  \<open>createStamps s es\<close> lists, in order, the clock values read for the \<^verbatim>\<open>timestamp\<close> by the
  saves of the run \<open>es\<close> from \<open>s\<close> that create a note.
\<close>

fun createStamps :: "AppState \<Rightarrow> Event list \<Rightarrow> int list" where
  "createStamps s [] = []"
| "createStamps s (SaveNote nowId nowTs r # es) =
     (if creates s then [nowTs] else []) @ createStamps (step s (SaveNote nowId nowTs r)) es"
| "createStamps s (e # es) = createStamps (step s e) es"

text \<open>
  A save puts the new note in front of the store, an edit keeps every position and a
  delete only removes entries, so the store lists its notes from the one created last to
  the one created first. The most recently created note of a date is therefore the first
  note of the store with that date, if there is one.
\<close>

definition lastCreatedOn :: "Note list \<Rightarrow> string \<Rightarrow> Note option" where
  "lastCreatedOn ns dateStr =
     (case filter (\<lambda>n. date n = dateStr) ns of [] \<Rightarrow> None | n # _ \<Rightarrow> Some n)"

text \<open>The timestamps of a list of notes never increase from the front to the back.\<close>

abbreviation newestFirst :: "Note list \<Rightarrow> bool" where
  "newestFirst ns \<equiv> sorted_wrt (\<lambda>a b. timestamp b \<le> timestamp a) ns"

text \<open>The invariant of the store that the saves maintain: no content trims to nothing.\<close>

definition contentKept :: "AppState \<Rightarrow> bool" where
  "contentKept s = (\<forall>n \<in> set (notes_state s). trim (content n) \<noteq> [])"

text \<open>
  The order of local calendar days: \<open>dayBefore a b\<close> when the day of \<open>a\<close> is earlier than
  the day of \<open>b\<close>, by year, then month, then day of the month.
\<close>

definition dayBefore :: "Date \<Rightarrow> Date \<Rightarrow> bool" where
  "dayBefore a b =
     (getFullYear a < getFullYear b
      \<or> (getFullYear a = getFullYear b
          \<and> (getMonth a < getMonth b
              \<or> (getMonth a = getMonth b \<and> getDate a < getDate b))))"

section \<open>Concrete inputs\<close>

text \<open>
  The local days 1, 2 and 5 March 2024 at midnight, three notes, and the runs of events
  that create them: the user opens the editor, types, and saves. The second run reads the
  clock value of the first; the third types a space before and after the text.
\<close>

definition day1 :: Date where
  "day1 = \<lparr>getFullYear = 2024, getMonth = 2, getDate = 1, msOfDay = 0\<rparr>"

definition day2 :: Date where
  "day2 = \<lparr>getFullYear = 2024, getMonth = 2, getDate = 2, msOfDay = 0\<rparr>"

definition day5 :: Date where
  "day5 = \<lparr>getFullYear = 2024, getMonth = 2, getDate = 5, msOfDay = 0\<rparr>"

definition noteA :: Note where
  "noteA = \<lparr>id_note = ''1709251200000'', content = ''Buy milk'', date = ''2024-03-01'',
            timestamp = 1709251200000, color = Yellow, rotation = - 3\<rparr>"

definition noteB :: Note where
  "noteB = \<lparr>id_note = ''1709251200000'', content = ''Call mom'', date = ''2024-03-01'',
            timestamp = 1709251200000, color = Pink, rotation = 0\<rparr>"

definition noteC :: Note where
  "noteC = \<lparr>id_note = ''1709251260000'', content = '' Call mom '', date = ''2024-03-01'',
            timestamp = 1709251260001, color = Pink, rotation = 0\<rparr>"

definition createA :: "Event list" where
  "createA =
     [OpenNewNoteModal random_zero, ChangeContent ''Buy milk'',
      SaveNote 1709251200000 1709251200000 random_zero]"

definition createB :: "Event list" where
  "createB =
     [OpenNewNoteModal random_zero, ChangeContent ''Call mom'',
      SaveNote 1709251200000 1709251200000 random_half]"

definition createC :: "Event list" where
  "createC =
     [OpenNewNoteModal random_zero, ChangeContent '' Call mom '',
      SaveNote 1709251260000 1709251260001 random_half]"

text \<open>The state after the first note has been created on 1 March.\<close>

definition stateA :: AppState where
  "stateA = (initialState day1)\<lparr>notes_state := [noteA]\<rparr>"

text \<open>
  States reached from there: the Discard confirmation is open for the note; the editor is
  open on the note with a changed text; the editor is open on the note after the note has
  been deleted; a day in the future, 5 March, has been selected in the calendar.
\<close>

definition pendingDeleteA :: AppState where
  "pendingDeleteA = run stateA [LongPressNote noteA, DeleteAction]"

definition editingA :: AppState where
  "editingA = run stateA [LongPressNote noteA, EditAction, ChangeContent ''Buy oat milk'']"

definition orphanEdit :: AppState where
  "orphanEdit = run stateA [LongPressNote noteA, EditAction, LongPressNote noteA, DeleteAction,
     ConfirmDelete, ChangeContent ''Buy oat milk'']"

definition futureSelected :: AppState where
  "futureSelected = run (initialState day1) [ViewSwitch Calendar, DateChange day5]"

text \<open>
  A creation after the clock has been set back by a minute, and the note it makes; and the
  states in which the editor is open with a changed text: on the older of two notes with
  different \<open>id\<close>s, and on the newer of two notes with one \<open>id\<close>.
\<close>

definition noteD :: Note where
  "noteD = \<lparr>id_note = ''1709251140000'', content = ''Call mom'', date = ''2024-03-01'',
            timestamp = 1709251140000, color = Pink, rotation = 0\<rparr>"

definition createD :: "Event list" where
  "createD =
     [OpenNewNoteModal random_zero, ChangeContent ''Call mom'',
      SaveNote 1709251140000 1709251140000 random_half]"

definition editingAC :: AppState where
  "editingAC = run (initialState day1)
     (createA @ createC @ [LongPressNote noteA, EditAction, ChangeContent ''Buy oat milk''])"

definition dupEditing :: AppState where
  "dupEditing = run (initialState day1)
     (createA @ createB @ [LongPressNote noteB, EditAction, ChangeContent ''Both''])"

section \<open>Reading decimal strings back\<close>

text \<open>The inverses of \<open>string_of_nat\<close> and \<open>string_of_int\<close>, used to show them injective.\<close>

definition nat_of_string :: "string \<Rightarrow> nat" where
  "nat_of_string s = foldl (\<lambda>a c. 10 * a + (of_char c - 48)) 0 s"

definition int_of_string :: "string \<Rightarrow> int" where
  "int_of_string s =
     (case s of
        [] \<Rightarrow> 0
      | c # cs \<Rightarrow> if c = CHR ''-'' then - int (nat_of_string cs) else int (nat_of_string s))"

section \<open>Properties of the sort\<close>

lemma insert_by_timestamp:
  "insert_by (\<lambda>a b. timestamp b - timestamp a) x ys = insort_key (\<lambda>n. - timestamp n) x ys"
  by (induction ys) auto

lemma array_sort_timestamp:
  "array_sort (\<lambda>a b. timestamp b - timestamp a) xs = sort_key (\<lambda>n. - timestamp n) xs"
  by (induction xs) (simp_all add: array_sort_def insert_by_timestamp)

lemma sorted_desc_sort_key:
  "sorted_wrt (\<lambda>a b. timestamp b \<le> timestamp a) (sort_key (\<lambda>n. - timestamp n) xs)"
proof -
  have "sorted (map (\<lambda>n. - timestamp n) (sort_key (\<lambda>n. - timestamp n) xs))"
    by (rule sorted_sort_key)
  then show ?thesis
    by (simp add: sorted_map)
qed

lemma getNotesForDate_sort_key:
  "getNotesForDate ns d
     = sort_key (\<lambda>n. - timestamp n) (filter (\<lambda>n. date n = toISODateString d) ns)"
  by (simp add: getNotesForDate_def array_sort_timestamp)

lemma getNotesForDate_head:
  assumes "getNotesForDate ns d = m # rest"
  shows "m \<in> set ns \<and> date m = toISODateString d
    \<and> (\<forall>n \<in> set ns. date n = toISODateString d \<longrightarrow> timestamp n \<le> timestamp m)
    \<and> filter (\<lambda>n. timestamp n = timestamp m) (filter (\<lambda>n. date n = toISODateString d) ns)
        = m # filter (\<lambda>n. timestamp n = timestamp m) rest"
proof -
  let ?sel = "filter (\<lambda>n. date n = toISODateString d) ns"
  have "filter (\<lambda>n. - timestamp n = - timestamp m) (sort_key (\<lambda>n. - timestamp n) ?sel)
      = filter (\<lambda>n. - timestamp n = - timestamp m) ?sel"
    by (rule sort_key_stable)
  then have first: "filter (\<lambda>n. timestamp n = timestamp m) ?sel
      = m # filter (\<lambda>n. timestamp n = timestamp m) rest"
    using assms by (simp add: getNotesForDate_sort_key [symmetric])
  have "set (getNotesForDate ns d) = set ?sel"
    by (simp add: getNotesForDate_sort_key)
  with assms have s: "set (m # rest) = set ?sel"
    by simp
  then have m: "m \<in> set ?sel" by auto
  have "sorted_wrt (\<lambda>a b. timestamp b \<le> timestamp a) (m # rest)"
    using sorted_desc_sort_key [of ?sel] assms by (simp add: getNotesForDate_sort_key)
  then have "\<forall>n \<in> set rest. timestamp n \<le> timestamp m"
    by simp
  then have "\<forall>n \<in> set (m # rest). timestamp n \<le> timestamp m"
    by simp
  with s have "\<forall>n \<in> set ?sel. timestamp n \<le> timestamp m"
    by simp
  with m first show ?thesis by simp
qed

section \<open>Decimal strings and date strings are injective\<close>

lemma random_index_less: "0 < n \<Longrightarrow> random_index r n < n"
proof -
  assume n: "0 < n"
  have r: "0 \<le> Rep_random01 r" "Rep_random01 r < 1"
    using Rep_random01 [of r] by auto
  have "Rep_random01 r * real n < real n"
    using r n by simp
  then have "\<lfloor>Rep_random01 r * real n\<rfloor> < int n"
    by (simp add: floor_less_iff)
  moreover have "0 \<le> \<lfloor>Rep_random01 r * real n\<rfloor>"
    using r by simp
  ultimately show ?thesis
    unfolding random_index_def by linarith
qed

lemma digit_char_code: "d < 10 \<Longrightarrow> of_char (digit_char d) = 48 + d"
proof -
  assume "d < 10"
  then have "d = 0 \<or> d = 1 \<or> d = 2 \<or> d = 3 \<or> d = 4 \<or> d = 5 \<or> d = 6 \<or> d = 7 \<or> d = 8 \<or> d = 9"
    by arith
  then show ?thesis
    by (elim disjE) (simp_all add: digit_char_def)
qed

lemma nat_of_string_of_nat: "nat_of_string (string_of_nat n) = n"
proof (induction n rule: string_of_nat.induct)
  case (1 n)
  show ?case
  proof (cases "n < 10")
    case True
    then show ?thesis
      by (simp add: string_of_nat.simps [of n] nat_of_string_def digit_char_code)
  next
    case False
    with 1 have ih: "nat_of_string (string_of_nat (n div 10)) = n div 10"
      by simp
    have "n mod 10 < 10" by simp
    then have "of_char (digit_char (n mod 10)) = 48 + n mod 10"
      by (rule digit_char_code)
    with False ih show ?thesis
      by (simp add: string_of_nat.simps [of n] nat_of_string_def)
  qed
qed

lemma digit_char_not_minus: "d < 10 \<Longrightarrow> digit_char d \<noteq> CHR ''-''"
proof
  assume d: "d < 10" and eq: "digit_char d = CHR ''-''"
  from d have "of_char (digit_char d) = 48 + d"
    by (rule digit_char_code)
  with eq show False by simp
qed

lemma string_of_nat_no_minus: "CHR ''-'' \<notin> set (string_of_nat n)"
proof (induction n rule: string_of_nat.induct)
  case (1 n)
  show ?case
  proof (cases "n < 10")
    case True
    then show ?thesis
      using digit_char_not_minus [of n] by (auto simp add: string_of_nat.simps [of n])
  next
    case False
    have "n mod 10 < 10" by simp
    then have "digit_char (n mod 10) \<noteq> CHR ''-''"
      by (rule digit_char_not_minus)
    with False 1 show ?thesis
      by (auto simp add: string_of_nat.simps [of n])
  qed
qed

lemma string_of_nat_not_Nil: "string_of_nat n \<noteq> []"
  by (subst string_of_nat.simps) simp

lemma int_of_string_of_int: "int_of_string (string_of_int i) = i"
proof (cases "i < 0")
  case True
  then show ?thesis
    by (simp add: string_of_int_def int_of_string_def nat_of_string_of_nat)
next
  case False
  obtain c cs where cs: "string_of_nat (nat i) = c # cs"
    using string_of_nat_not_Nil [of "nat i"] by (cases "string_of_nat (nat i)") auto
  have "c \<noteq> CHR ''-''"
    using string_of_nat_no_minus [of "nat i"] cs by auto
  moreover have "nat_of_string (c # cs) = nat i"
    using nat_of_string_of_nat [of "nat i"] cs by simp
  ultimately show ?thesis
    using False cs by (simp add: string_of_int_def int_of_string_def)
qed

lemma string_of_int_inj: "string_of_int i = string_of_int j \<Longrightarrow> i = j"
  by (metis int_of_string_of_int)

lemma nat_of_string_padStart:
  "nat_of_string (padStart n (CHR ''0'') s) = nat_of_string s"
proof -
  have "foldl (\<lambda>a c. 10 * a + (of_char c - 48)) (0::nat) (replicate k (CHR ''0'')) = 0" for k
    by (induction k) simp_all
  then show ?thesis
    by (simp add: nat_of_string_def padStart_def)
qed

lemma padStart_no_minus: "CHR ''-'' \<notin> set (padStart n (CHR ''0'') (string_of_nat m))"
  using string_of_nat_no_minus [of m] by (auto simp add: padStart_def)

lemma split_at_separator:
  "x \<notin> set b \<Longrightarrow> x \<notin> set b' \<Longrightarrow> b @ x # a = b' @ x # a' \<Longrightarrow> b = b' \<and> a = a'"
proof (induction b arbitrary: b')
  case Nil
  then show ?case by (cases b') auto
next
  case (Cons y ys)
  then show ?case by (cases b') auto
qed

lemma split_at_last_separator:
  assumes "x \<notin> set b" "x \<notin> set b'" "a @ x # b = a' @ x # b'"
  shows "a = a' \<and> b = b'"
proof -
  have "rev b @ x # rev a = rev b' @ x # rev a'"
    using assms(3) by (metis rev.simps(2) rev_append append_assoc append_Cons append_Nil)
  with assms(1,2) have "rev b = rev b' \<and> rev a = rev a'"
    by (intro split_at_separator) auto
  then show ?thesis by simp
qed

lemma toISODateString_inj:
  assumes "toISODateString a = toISODateString b"
  shows "getFullYear a = getFullYear b \<and> getMonth a = getMonth b \<and> getDate a = getDate b"
proof -
  let ?Y = "\<lambda>d. string_of_int (getFullYear d)"
  let ?M = "\<lambda>d. padStart 2 (CHR ''0'') (string_of_nat (getMonth d + 1))"
  let ?D = "\<lambda>d. padStart 2 (CHR ''0'') (string_of_nat (getDate d))"
  have eq: "(?Y a @ CHR ''-'' # ?M a) @ CHR ''-'' # ?D a = (?Y b @ CHR ''-'' # ?M b) @ CHR ''-'' # ?D b"
    using assms by (simp add: toISODateString_def)
  have 1: "?Y a @ CHR ''-'' # ?M a = ?Y b @ CHR ''-'' # ?M b \<and> ?D a = ?D b"
    by (rule split_at_last_separator [OF padStart_no_minus padStart_no_minus eq])
  then have 2: "?Y a = ?Y b \<and> ?M a = ?M b"
    by (intro split_at_last_separator [OF padStart_no_minus padStart_no_minus]) simp
  have "getFullYear a = getFullYear b"
    using 2 by (simp add: string_of_int_inj)
  moreover have "getMonth a + 1 = getMonth b + 1"
    using 2 by (metis nat_of_string_padStart nat_of_string_of_nat)
  moreover have "getDate a = getDate b"
    using 1 by (metis nat_of_string_padStart nat_of_string_of_nat)
  ultimately show ?thesis by simp
qed


section \<open>Evaluating the concrete runs\<close>

lemma str_clockA: "string_of_int 1709251200000 = ''1709251200000''"
  by (simp add: string_of_int_def string_of_nat.simps digit_char_def)

lemma str_clockC: "string_of_int 1709251260000 = ''1709251260000''"
  by (simp add: string_of_int_def string_of_nat.simps digit_char_def)

lemma iso_day1: "toISODateString day1 = ''2024-03-01''"
  by (simp add: toISODateString_def day1_def string_of_int_def string_of_nat.simps padStart_def digit_char_def)

lemma trim_A: "trim ''Buy milk'' = ''Buy milk''"
  by (simp add: trim_def isWhiteSpace_def)

lemma trim_B: "trim ''Call mom'' = ''Call mom''"
  by (simp add: trim_def isWhiteSpace_def)

lemma trim_C: "trim '' Call mom '' = ''Call mom''"
  by (simp add: trim_def isWhiteSpace_def)

lemma color_none: "getRandomColor random_zero None = Yellow"
  by (simp add: getRandomColor_def getRandomColorFrom_def COLORS_def random_index_def random_zero.rep_eq)

lemma color_yellow: "getRandomColor random_zero (Some Yellow) = Pink"
  by (simp add: getRandomColor_def getRandomColorFrom_def COLORS_def random_index_def random_zero.rep_eq)

lemma getNotes_Nil: "getNotesForDate [] d = []"
  by (simp add: getNotesForDate_def array_sort_def)

lemma getNotes_A: "getNotesForDate [noteA] day1 = [noteA]"
  by (simp add: getNotesForDate_def array_sort_def iso_day1 noteA_def Let_def)

lemma run_createA: "run (initialState day1) createA = stateA"
  by (simp add: run_def createA_def openNewNoteModal_def changeContent_def handleSaveNote_def
      getNotes_Nil color_none trim_A truthy_def str_clockA iso_day1 random_zero.rep_eq
      stateA_def noteA_def initialState_def)

lemma run_createB: "run stateA createB = stateA\<lparr>notes_state := [noteB, noteA], newNoteColor := Pink\<rparr>"
  by (simp add: run_def createB_def openNewNoteModal_def changeContent_def handleSaveNote_def
      getNotes_A color_yellow trim_B truthy_def str_clockA iso_day1 random_half.rep_eq
      stateA_def noteB_def initialState_def) (simp add: noteA_def color_yellow)

lemma run_createC: "run stateA createC = stateA\<lparr>notes_state := [noteC, noteA], newNoteColor := Pink\<rparr>"
  by (simp add: run_def createC_def openNewNoteModal_def changeContent_def handleSaveNote_def
      getNotes_A color_yellow trim_C truthy_def str_clockC iso_day1 random_half.rep_eq
      stateA_def noteC_def initialState_def) (simp add: noteA_def color_yellow)

lemma trim_oat: "trim ''Buy oat milk'' = ''Buy oat milk''"
  by (simp add: trim_def isWhiteSpace_def)

lemma pendingDeleteA_eval:
  "pendingDeleteA = stateA\<lparr>actionNote := Some noteA, isDeleteConfirmOpen := True\<rparr>"
  by (simp add: pendingDeleteA_def run_def handleLongPressNote_def handleDeleteAction_def
      stateA_def initialState_def)

lemma editingA_eval:
  "editingA = stateA\<lparr>actionNote := Some noteA, isModalOpen := True,
     editingNoteId := Some ''1709251200000'', newNoteContent := ''Buy oat milk''\<rparr>"
  by (simp add: editingA_def run_def handleLongPressNote_def handleEditAction_def
      changeContent_def stateA_def initialState_def noteA_def)

lemma orphanEdit_eval:
  "orphanEdit = stateA\<lparr>notes_state := [], isModalOpen := True,
     editingNoteId := Some ''1709251200000'', newNoteContent := ''Buy oat milk''\<rparr>"
  by (simp add: orphanEdit_def run_def handleLongPressNote_def handleEditAction_def
      handleDeleteAction_def confirmDelete_def changeContent_def stateA_def initialState_def
      noteA_def)

lemma futureSelected_eval:
  "futureSelected = (initialState day1)\<lparr>currentDate := day5\<rparr>"
  by (simp add: futureSelected_def run_def handleViewSwitch_def handleDateChange_def
      initialState_def)

lemma iso_day2: "toISODateString day2 = ''2024-03-02''"
  by (simp add: toISODateString_def day2_def string_of_int_def string_of_nat.simps padStart_def digit_char_def)

lemma iso_day5: "toISODateString day5 = ''2024-03-05''"
  by (simp add: toISODateString_def day5_def string_of_int_def string_of_nat.simps padStart_def digit_char_def)

lemma run_append: "run s (es @ es') = run (run s es) es'"
  by (simp add: run_def)

section \<open>C1: the notes of a date\<close>

text \<open>
  C1. For every store and every date, \<open>getNotesForDate\<close> returns exactly the notes of the
  store whose \<open>date\<close> field is the \<open>toISODateString\<close> of the date (the same notes, each as
  often as in the store), in descending order of \<open>timestamp\<close>, and the notes of any one
  timestamp appear in the order they have in the store: the sort is stable.
\<close>

theorem getNotesForDate_filter_sorted_stable:
  "mset (getNotesForDate ns d) = mset (filter (\<lambda>n. date n = toISODateString d) ns)
   \<and> sorted_wrt (\<lambda>a b. timestamp b \<le> timestamp a) (getNotesForDate ns d)
   \<and> filter (\<lambda>n. timestamp n = t) (getNotesForDate ns d)
       = filter (\<lambda>n. timestamp n = t) (filter (\<lambda>n. date n = toISODateString d) ns)"
proof -
  let ?sel = "filter (\<lambda>n. date n = toISODateString d) ns"
  have eq: "getNotesForDate ns d = sort_key (\<lambda>n. - timestamp n) ?sel"
    by (rule getNotesForDate_sort_key)
  have stable: "filter (\<lambda>n. - timestamp n = - t) (sort_key (\<lambda>n. - timestamp n) ?sel)
      = filter (\<lambda>n. - timestamp n = - t) ?sel"
    by (rule sort_key_stable)
  show ?thesis
    using stable by (simp add: eq sorted_desc_sort_key)
qed

section \<open>What each event does to the store\<close>

lemma run_Cons: "run s (e # es) = run (step s e) es"
  by (simp add: run_def)

lemma run_Nil: "run s [] = s"
  by (simp add: run_def)

lemma notes_state_step:
  "notes_state (step s e) =
     (case e of
        SaveNote a b r \<Rightarrow> notes_state (handleSaveNote a b r s)
      | ConfirmDelete \<Rightarrow> notes_state (confirmDelete s)
      | _ \<Rightarrow> notes_state s)"
  by (cases e)
     (simp_all add: handleVisibilityChange_def handleDateChange_def openNewNoteModal_def
        changeContent_def handleLongPressNote_def handleEditAction_def handleDeleteAction_def
        keepIt_def dismissDrawer_def closeModal_def toggleGridMode_def handleViewSwitch_def Let_def
        split: option.split)

lemma notes_state_save_create:
  "creates s \<Longrightarrow> notes_state (handleSaveNote a b r s)
     = \<lparr>id_note = string_of_int a, content = newNoteContent s,
        date = toISODateString (currentDate s), timestamp = b,
        color = newNoteColor s, rotation = Rep_random01 r * 6 - 3\<rparr> # notes_state s"
  by (simp add: handleSaveNote_def creates_def Let_def)

lemma notes_state_save_edit:
  "trim (newNoteContent s) \<noteq> [] \<Longrightarrow> truthy (editingNoteId s) \<Longrightarrow>
   notes_state (handleSaveNote a b r s)
     = map (\<lambda>n. if Some (id_note n) = editingNoteId s then n\<lparr>content := newNoteContent s\<rparr> else n)
         (notes_state s)"
  by (simp add: handleSaveNote_def)

lemma save_rejected: "trim (newNoteContent s) = [] \<Longrightarrow> handleSaveNote a b r s = s"
  by (simp add: handleSaveNote_def)

lemma notes_state_confirmDelete:
  "notes_state (confirmDelete s)
     = (case actionNote s of
          Some a \<Rightarrow> filter (\<lambda>n. id_note n \<noteq> id_note a) (notes_state s)
        | None \<Rightarrow> notes_state s)"
  by (simp add: confirmDelete_def split: option.split)

section \<open>C2: the content of stored notes\<close>

lemma contentKept_save: "contentKept s \<Longrightarrow> contentKept (handleSaveNote a b r s)"
proof -
  assume k: "contentKept s"
  show ?thesis
  proof (cases "trim (newNoteContent s) = []")
    case True
    with k show ?thesis by (simp add: save_rejected)
  next
    case False
    show ?thesis
    proof (cases "truthy (editingNoteId s)")
      case True
      with False k show ?thesis
        by (auto simp add: contentKept_def notes_state_save_edit)
    next
      case no: False
      with False have "creates s" by (simp add: creates_def)
      with False k show ?thesis
        by (auto simp add: contentKept_def notes_state_save_create)
    qed
  qed
qed

lemma contentKept_confirmDelete: "contentKept s \<Longrightarrow> contentKept (confirmDelete s)"
  by (auto simp add: contentKept_def notes_state_confirmDelete split: option.split)

lemma contentKept_step: "contentKept s \<Longrightarrow> contentKept (step s e)"
proof (cases e)
  case (SaveNote a b r)
  assume "contentKept s"
  with SaveNote show ?thesis by (simp add: contentKept_save)
next
  case ConfirmDelete
  assume "contentKept s"
  with ConfirmDelete show ?thesis by (simp add: contentKept_confirmDelete)
qed (simp_all add: contentKept_def notes_state_step del: step.simps)

lemma contentKept_run: "contentKept s \<Longrightarrow> contentKept (run s es)"
  by (induction es arbitrary: s) (simp_all add: run_Nil run_Cons contentKept_step)

text \<open>
  C2, as amended. Every note of every store reached from the empty store has a content
  whose trim is not empty; the content is stored as typed, not trimmed. A save whose
  buffer trims to the empty string is rejected: the state, and with it the store, is
  unchanged.
\<close>

theorem content_trims_nonempty:
  "(\<forall>n \<in> set (notes_state (run (initialState d) es)). trim (content n) \<noteq> [])
   \<and> (trim (newNoteContent s) = [] \<longrightarrow> handleSaveNote nowId nowTs r s = s)"
proof -
  have "contentKept (initialState d)"
    by (simp add: contentKept_def initialState_def)
  then have "contentKept (run (initialState d) es)"
    by (rule contentKept_run)
  then show ?thesis
    by (simp add: contentKept_def save_rejected)
qed

theorem content_trims_nonempty_witness:
  "noteC \<in> set (notes_state (run (initialState day1) (createA @ createC)))
   \<and> trim (content noteC) \<noteq> []
   \<and> trim (newNoteContent (initialState day1)) = []
   \<and> handleSaveNote 1709251200000 1709251200000 random_zero (initialState day1) = initialState day1"
proof -
  have m: "noteC \<in> set (notes_state (run (initialState day1) (createA @ createC)))"
    by (simp add: run_append run_createA run_createC)
  have e: "trim (newNoteContent (initialState day1)) = []"
    by (simp add: initialState_def trim_def)
  from content_trims_nonempty
         [of day1 "createA @ createC" "initialState day1" 1709251200000 1709251200000 random_zero]
  have "\<forall>n \<in> set (notes_state (run (initialState day1) (createA @ createC))). trim (content n) \<noteq> []"
    and "trim (newNoteContent (initialState day1)) = [] \<longrightarrow>
      handleSaveNote 1709251200000 1709251200000 random_zero (initialState day1) = initialState day1"
    by blast+
  with m e show ?thesis by blast
qed

text \<open>
  The claim as first stated fails: a note typed with a space at each end is stored with
  both spaces, so its content differs from its own trim.
\<close>

theorem content_not_trimmed_counterexample:
  "content (hd (notes_state (run (initialState day1) (createA @ createC))))
     \<noteq> trim (content (hd (notes_state (run (initialState day1) (createA @ createC)))))"
  by (simp add: run_append run_createA run_createC noteC_def trim_C)

section \<open>C3: confirmed delete\<close>

lemma filter_removes_one:
  "distinct (map f xs) \<Longrightarrow> k < length xs \<Longrightarrow> f (xs ! k) = v
    \<Longrightarrow> filter (\<lambda>n. f n \<noteq> v) xs = take k xs @ drop (Suc k) xs"
proof (induction xs arbitrary: k)
  case Nil
  then show ?case by simp
next
  case (Cons x xs)
  show ?case
  proof (cases k)
    case 0
    with Cons.prems have "f x = v" "v \<notin> f ` set xs" by auto
    then have "filter (\<lambda>n. f n \<noteq> v) xs = xs"
      by (intro filter_True) (auto simp add: image_iff)
    with 0 \<open>f x = v\<close> show ?thesis by simp
  next
    case (Suc j)
    with Cons.prems have "f x \<noteq> v" by auto
    moreover have "filter (\<lambda>n. f n \<noteq> v) xs = take j xs @ drop (Suc j) xs"
      using Cons.prems Suc by (intro Cons.IH) auto
    ultimately show ?thesis using Suc by simp
  qed
qed

text \<open>
  C3, as amended. For every store and every confirmed delete with target note \<open>t\<close>: the
  delete removes every entry whose \<open>id\<close> is that of \<open>t\<close> and keeps all other notes, unchanged
  and in their order; if no note has that \<open>id\<close> the store is unchanged; and if the \<open>id\<close>s of the
  store are pairwise distinct and some note has the \<open>id\<close> of \<open>t\<close>, exactly one entry, at some
  position \<open>k\<close>, is removed.
\<close>

theorem confirmDelete_removes_matching:
  assumes "actionNote s = Some t"
  shows "notes_state (confirmDelete s) = filter (\<lambda>n. id_note n \<noteq> id_note t) (notes_state s)
    \<and> (id_note t \<notin> set (ids s) \<longrightarrow> notes_state (confirmDelete s) = notes_state s)
    \<and> (distinct (ids s) \<and> id_note t \<in> set (ids s) \<longrightarrow>
          (\<exists>k < length (notes_state s). id_note (notes_state s ! k) = id_note t
             \<and> notes_state (confirmDelete s) = take k (notes_state s) @ drop (Suc k) (notes_state s)))"
proof -
  have 1: "notes_state (confirmDelete s) = filter (\<lambda>n. id_note n \<noteq> id_note t) (notes_state s)"
    using assms by (simp add: confirmDelete_def)
  have 2: "notes_state (confirmDelete s) = notes_state s" if "id_note t \<notin> set (ids s)"
    unfolding 1 using that by (intro filter_True) (auto simp add: image_iff)
  have 3: "\<exists>k < length (notes_state s). id_note (notes_state s ! k) = id_note t
             \<and> notes_state (confirmDelete s) = take k (notes_state s) @ drop (Suc k) (notes_state s)"
    if d: "distinct (ids s)" and m: "id_note t \<in> set (ids s)"
  proof -
    from m obtain k where k: "k < length (notes_state s)" "id_note (notes_state s ! k) = id_note t"
      by (auto simp add: in_set_conv_nth)
    with d have "filter (\<lambda>n. id_note n \<noteq> id_note t) (notes_state s)
        = take k (notes_state s) @ drop (Suc k) (notes_state s)"
      by (intro filter_removes_one)
    with k 1 show ?thesis by auto
  qed
  from 1 2 3 show ?thesis by blast
qed

theorem confirmDelete_witness:
  "actionNote pendingDeleteA = Some noteA
   \<and> distinct (ids pendingDeleteA) \<and> id_note noteA \<in> set (ids pendingDeleteA)
   \<and> notes_state pendingDeleteA = [noteA]
   \<and> notes_state (confirmDelete pendingDeleteA) = []"
proof -
  have a: "actionNote pendingDeleteA = Some noteA"
    by (simp add: pendingDeleteA_eval)
  have n: "notes_state pendingDeleteA = [noteA]"
    by (simp add: pendingDeleteA_eval stateA_def)
  have "notes_state (confirmDelete pendingDeleteA)
      = filter (\<lambda>n. id_note n \<noteq> id_note noteA) (notes_state pendingDeleteA)"
    using confirmDelete_removes_matching [OF a] by blast
  with a n show ?thesis by simp
qed

text \<open>
  The claim as first stated fails on a store in which two notes have one \<open>id\<close>: after two
  creations that read the same clock value, Discard on the newer note removes both.
\<close>

theorem confirmDelete_removes_two_counterexample:
  "notes_state (run (initialState day1) (createA @ createB @ [LongPressNote noteB, DeleteAction]))
     = [noteB, noteA]
   \<and> actionNote (run (initialState day1) (createA @ createB @ [LongPressNote noteB, DeleteAction]))
     = Some noteB
   \<and> notes_state (confirmDelete
        (run (initialState day1) (createA @ createB @ [LongPressNote noteB, DeleteAction]))) = []"
proof -
  have "run (initialState day1) (createA @ createB @ [LongPressNote noteB, DeleteAction])
      = stateA\<lparr>notes_state := [noteB, noteA], newNoteColor := Pink,
               actionNote := Some noteB, isDeleteConfirmOpen := True\<rparr>"
    by (simp add: run_append run_createA run_createB)
       (simp add: run_def handleLongPressNote_def handleDeleteAction_def stateA_def initialState_def)
  then show ?thesis
    by (simp add: confirmDelete_def noteA_def noteB_def)
qed

section \<open>C4: uniqueness of the ids\<close>

lemma ids_save_create: "creates s \<Longrightarrow> ids (handleSaveNote a b r s) = string_of_int a # ids s"
  by (simp add: notes_state_save_create)

lemma ids_save_other: "\<not> creates s \<Longrightarrow> ids (handleSaveNote a b r s) = ids s"
proof (cases "trim (newNoteContent s) = []")
  case True
  then show ?thesis by (simp add: save_rejected)
next
  case False
  assume "\<not> creates s"
  with False have "truthy (editingNoteId s)" by (simp add: creates_def)
  with False show ?thesis
    by (simp add: notes_state_save_edit comp_def if_distrib [of id_note] cong: if_cong)
qed

lemma ids_confirmDelete:
  "ids (confirmDelete s)
     = (case actionNote s of Some a \<Rightarrow> filter (\<lambda>i. i \<noteq> id_note a) (ids s) | None \<Rightarrow> ids s)"
  by (simp add: notes_state_confirmDelete filter_map comp_def split: option.split)

lemma distinct_ids_confirmDelete: "distinct (ids s) \<Longrightarrow> distinct (ids (confirmDelete s))"
  by (simp add: ids_confirmDelete split: option.split)

lemma set_ids_confirmDelete: "set (ids (confirmDelete s)) \<subseteq> set (ids s)"
  by (auto simp add: ids_confirmDelete split: option.split)

lemma createClocks_append:
  "createClocks s (es @ es') = createClocks s es @ createClocks (run s es) es'"
proof (induction es arbitrary: s)
  case Nil
  then show ?case by (simp add: run_Nil)
next
  case (Cons e es)
  then show ?case by (cases e) (simp_all add: run_Cons)
qed

lemma distinct_ids_run:
  "distinct (ids s) \<Longrightarrow> set (ids s) \<subseteq> string_of_int ` seen
    \<Longrightarrow> distinct (createClocks s es) \<Longrightarrow> set (createClocks s es) \<inter> seen = {}
    \<Longrightarrow> distinct (ids (run s es))"
proof (induction es arbitrary: s seen)
  case Nil
  then show ?case by (simp add: run_Nil)
next
  case (Cons e es)
  show ?case
  proof (cases e)
    case (SaveNote a b r)
    show ?thesis
    proof (cases "creates s")
      case True
      let ?s' = "handleSaveNote a b r s"
      from True Cons.prems SaveNote
      have a: "a \<notin> seen" "a \<notin> set (createClocks ?s' es)" "distinct (createClocks ?s' es)"
        "set (createClocks ?s' es) \<inter> seen = {}"
        by auto
      have "string_of_int a \<notin> string_of_int ` seen"
        using a(1) string_of_int_inj by blast
      with Cons.prems(2) have "string_of_int a \<notin> set (ids s)" by blast
      with Cons.prems(1) True have d: "distinct (ids ?s')"
        by (simp add: ids_save_create)
      have sub: "set (ids ?s') \<subseteq> string_of_int ` insert a seen"
        using Cons.prems(2) True by (auto simp add: ids_save_create)
      have "set (createClocks ?s' es) \<inter> insert a seen = {}"
        using a by auto
      with d sub a(3) have "distinct (ids (run ?s' es))"
        by (rule Cons.IH)
      with SaveNote show ?thesis by (simp add: run_Cons)
    next
      case False
      let ?s' = "handleSaveNote a b r s"
      from False Cons.prems SaveNote
      have "distinct (ids ?s')" "set (ids ?s') \<subseteq> string_of_int ` seen"
        "distinct (createClocks ?s' es)" "set (createClocks ?s' es) \<inter> seen = {}"
        by (simp_all add: ids_save_other)
      then have "distinct (ids (run ?s' es))"
        by (rule Cons.IH)
      with SaveNote show ?thesis by (simp add: run_Cons)
    qed
  next
    case ConfirmDelete
    from Cons.prems ConfirmDelete
    have "distinct (ids (confirmDelete s))" "set (ids (confirmDelete s)) \<subseteq> string_of_int ` seen"
      "distinct (createClocks (confirmDelete s) es)" "set (createClocks (confirmDelete s) es) \<inter> seen = {}"
      using set_ids_confirmDelete [of s] by (auto simp add: distinct_ids_confirmDelete)
    then have "distinct (ids (run (confirmDelete s) es))"
      by (rule Cons.IH)
    with ConfirmDelete show ?thesis by (simp add: run_Cons)
  qed (use Cons.prems Cons.IH [of "step s e" seen] in
      \<open>simp_all add: run_Cons notes_state_step del: step.simps\<close>)
qed

lemma creates_initial_createA:
  "createClocks (initialState day1) createA = [1709251200000]"
  by (simp add: createA_def creates_def openNewNoteModal_def changeContent_def trim_A truthy_def
      initialState_def)

lemma creates_stateA_createC:
  "createClocks stateA createC = [1709251260000]"
  by (simp add: createC_def creates_def openNewNoteModal_def changeContent_def trim_C truthy_def
      stateA_def initialState_def)

text \<open>
  C4, as amended. The \<open>id\<close> of a new note is the decimal string of the clock value read
  at its creation. In every state reached from the empty store by a run of events in which
  the clock values read for the \<open>id\<close>s of the created notes are pairwise distinct, the
  \<open>id\<close>s of the notes are pairwise distinct. A delete preserves distinct \<open>id\<close>s, and so does
  a save that edits or is rejected; a save that creates preserves them when the string of
  its clock value is not yet an \<open>id\<close> of the store, and produces two notes with one \<open>id\<close>
  when it is.
\<close>

theorem ids_distinct_when_clocks_distinct:
  "(distinct (createClocks (initialState d) es) \<longrightarrow> distinct (ids (run (initialState d) es)))
   \<and> (distinct (ids s) \<longrightarrow> distinct (ids (confirmDelete s)))
   \<and> (distinct (ids s) \<and> \<not> creates s \<longrightarrow> distinct (ids (handleSaveNote nowId nowTs r s)))
   \<and> (distinct (ids s) \<and> creates s \<and> string_of_int nowId \<notin> set (ids s) \<longrightarrow>
        distinct (ids (handleSaveNote nowId nowTs r s)))
   \<and> (creates s \<and> string_of_int nowId \<in> set (ids s) \<longrightarrow>
        \<not> distinct (ids (handleSaveNote nowId nowTs r s)))"
proof -
  have "distinct (ids (run (initialState d) es))" if "distinct (createClocks (initialState d) es)"
  proof -
    have "distinct (ids (initialState d))" "set (ids (initialState d)) \<subseteq> string_of_int ` {}"
      by (simp_all add: initialState_def)
    moreover have "set (createClocks (initialState d) es) \<inter> {} = {}"
      by simp
    ultimately show ?thesis
      using that distinct_ids_run [of "initialState d" "{}" es] by blast
  qed
  then show ?thesis
    by (simp add: distinct_ids_confirmDelete ids_save_other ids_save_create)
qed

theorem ids_distinct_witness:
  "distinct (createClocks (initialState day1) (createA @ createC))
   \<and> distinct (ids (run (initialState day1) (createA @ createC)))
   \<and> ids (run (initialState day1) (createA @ createC)) = [''1709251260000'', ''1709251200000'']
   \<and> distinct (ids pendingDeleteA) \<and> distinct (ids (confirmDelete pendingDeleteA))
   \<and> distinct (ids editingA) \<and> \<not> creates editingA
   \<and> distinct (ids (handleSaveNote 1709251300000 1709251300000 random_zero editingA))"
proof -
  have p: "distinct (ids pendingDeleteA)"
    by (simp add: pendingDeleteA_eval stateA_def)
  have "distinct (ids pendingDeleteA) \<longrightarrow> distinct (ids (confirmDelete pendingDeleteA))"
    using ids_distinct_when_clocks_distinct [where s = pendingDeleteA] by blast
  with p have p': "distinct (ids (confirmDelete pendingDeleteA))"
    by blast
  have e: "distinct (ids editingA)" "\<not> creates editingA"
    by (simp_all add: editingA_eval stateA_def creates_def truthy_def)
  have "distinct (ids editingA) \<and> \<not> creates editingA \<longrightarrow>
      distinct (ids (handleSaveNote 1709251300000 1709251300000 random_zero editingA))"
    using ids_distinct_when_clocks_distinct
      [where s = editingA and nowId = 1709251300000 and nowTs = 1709251300000 and r = random_zero]
    by blast
  with e have e': "distinct (ids (handleSaveNote 1709251300000 1709251300000 random_zero editingA))"
    by blast
  have c: "distinct (createClocks (initialState day1) (createA @ createC))"
    by (simp add: createClocks_append run_createA creates_initial_createA creates_stateA_createC)
  have "distinct (createClocks (initialState day1) (createA @ createC))
      \<longrightarrow> distinct (ids (run (initialState day1) (createA @ createC)))"
    using ids_distinct_when_clocks_distinct [of day1 "createA @ createC"] by blast
  with c have "distinct (ids (run (initialState day1) (createA @ createC)))"
    by blast
  moreover have "ids (run (initialState day1) (createA @ createC))
      = [''1709251260000'', ''1709251200000'']"
    by (simp add: run_append run_createA run_createC noteA_def noteC_def)
  ultimately show ?thesis
    using c p p' e e' by blast
qed

text \<open>
  The claim as first stated fails: two creations that read the same clock value leave two
  notes with the same \<open>id\<close> in the store.
\<close>

theorem ids_duplicate_counterexample:
  "\<not> distinct (ids (run (initialState day1) (createA @ createB)))"
  by (simp add: run_append run_createA run_createB noteA_def noteB_def)

section \<open>C5: saving an edit\<close>

lemma trim_Both: "trim ''Both'' = ''Both''"
  by (simp add: trim_def isWhiteSpace_def)

lemma dupEditing_eval:
  "dupEditing = stateA\<lparr>notes_state := [noteB, noteA], newNoteColor := Pink,
     actionNote := Some noteB, isModalOpen := True,
     editingNoteId := Some ''1709251200000'', newNoteContent := ''Both''\<rparr>"
  by (simp add: dupEditing_def run_append run_createA run_createB)
     (simp add: run_def handleLongPressNote_def handleEditAction_def changeContent_def
        stateA_def initialState_def noteB_def)

lemma editingAC_eval:
  "editingAC = stateA\<lparr>notes_state := [noteC, noteA], newNoteColor := Yellow,
     actionNote := Some noteA, isModalOpen := True,
     editingNoteId := Some ''1709251200000'', newNoteContent := ''Buy oat milk''\<rparr>"
  by (simp add: editingAC_def run_append run_createA run_createC)
     (simp add: run_def handleLongPressNote_def handleEditAction_def changeContent_def
        stateA_def initialState_def noteA_def)

text \<open>
  C5, as amended. Edit mode is the branch \<^verbatim>\<open>if (editingNoteId)\<close> of the save. A save in
  edit mode keeps the length of the store, and at every position \<open>k\<close> the note keeps its
  \<open>id\<close>, \<open>date\<close>, \<open>timestamp\<close>, \<open>color\<close> and \<open>rotation\<close>; a note whose \<open>id\<close> is not the edited
  one is unchanged; every note with the edited \<open>id\<close> differs from before at most in its
  \<open>content\<close>, which becomes the buffer when the save is accepted. When the \<open>id\<close>s of the
  store are pairwise distinct and the note at \<open>k\<close> has the edited \<open>id\<close>, every other note of
  the store is unchanged.
\<close>

theorem handleSaveNote_edit_changes_only_content:
  assumes "truthy (editingNoteId s)" and "k < length (notes_state s)"
  shows "length (notes_state (handleSaveNote nowId nowTs r s)) = length (notes_state s)
    \<and> id_note (notes_state (handleSaveNote nowId nowTs r s) ! k) = id_note (notes_state s ! k)
    \<and> date (notes_state (handleSaveNote nowId nowTs r s) ! k) = date (notes_state s ! k)
    \<and> timestamp (notes_state (handleSaveNote nowId nowTs r s) ! k) = timestamp (notes_state s ! k)
    \<and> color (notes_state (handleSaveNote nowId nowTs r s) ! k) = color (notes_state s ! k)
    \<and> rotation (notes_state (handleSaveNote nowId nowTs r s) ! k) = rotation (notes_state s ! k)
    \<and> (Some (id_note (notes_state s ! k)) \<noteq> editingNoteId s \<longrightarrow>
          notes_state (handleSaveNote nowId nowTs r s) ! k = notes_state s ! k)
    \<and> (Some (id_note (notes_state s ! k)) = editingNoteId s \<and> trim (newNoteContent s) \<noteq> [] \<longrightarrow>
          notes_state (handleSaveNote nowId nowTs r s) ! k
            = (notes_state s ! k)\<lparr>content := newNoteContent s\<rparr>)
    \<and> (distinct (ids s) \<and> Some (id_note (notes_state s ! k)) = editingNoteId s \<longrightarrow>
          (\<forall>j < length (notes_state s). j \<noteq> k \<longrightarrow>
             notes_state (handleSaveNote nowId nowTs r s) ! j = notes_state s ! j))"
proof -
  have others: "notes_state (handleSaveNote nowId nowTs r s) ! j = notes_state s ! j"
    if d: "distinct (ids s)" and e: "Some (id_note (notes_state s ! k)) = editingNoteId s"
      and j: "j < length (notes_state s)" "j \<noteq> k" for j
  proof -
    have "id_note (notes_state s ! j) \<noteq> id_note (notes_state s ! k)"
      using d j assms(2) nth_eq_iff_index_eq [of "ids s" j k] by simp
    with e have "Some (id_note (notes_state s ! j)) \<noteq> editingNoteId s"
      by (metis option.inject)
    with j assms(1) show ?thesis
      by (simp add: handleSaveNote_def)
  qed
  have rest: "length (notes_state (handleSaveNote nowId nowTs r s)) = length (notes_state s)
    \<and> id_note (notes_state (handleSaveNote nowId nowTs r s) ! k) = id_note (notes_state s ! k)
    \<and> date (notes_state (handleSaveNote nowId nowTs r s) ! k) = date (notes_state s ! k)
    \<and> timestamp (notes_state (handleSaveNote nowId nowTs r s) ! k) = timestamp (notes_state s ! k)
    \<and> color (notes_state (handleSaveNote nowId nowTs r s) ! k) = color (notes_state s ! k)
    \<and> rotation (notes_state (handleSaveNote nowId nowTs r s) ! k) = rotation (notes_state s ! k)
    \<and> (Some (id_note (notes_state s ! k)) \<noteq> editingNoteId s \<longrightarrow>
          notes_state (handleSaveNote nowId nowTs r s) ! k = notes_state s ! k)
    \<and> (Some (id_note (notes_state s ! k)) = editingNoteId s \<and> trim (newNoteContent s) \<noteq> [] \<longrightarrow>
          notes_state (handleSaveNote nowId nowTs r s) ! k
            = (notes_state s ! k)\<lparr>content := newNoteContent s\<rparr>)"
    using assms by (simp add: handleSaveNote_def)
  from rest others show ?thesis by blast
qed

theorem handleSaveNote_edit_witness:
  "truthy (editingNoteId editingAC) \<and> 1 < length (notes_state editingAC)
   \<and> Some (id_note (notes_state editingAC ! 1)) = editingNoteId editingAC
   \<and> trim (newNoteContent editingAC) \<noteq> []
   \<and> distinct (ids editingAC)
   \<and> notes_state (handleSaveNote 1709251300000 1709251300000 random_zero editingAC) ! 1
       = noteA\<lparr>content := ''Buy oat milk''\<rparr>
   \<and> notes_state (handleSaveNote 1709251300000 1709251300000 random_zero editingAC) ! 0
       = noteC"
proof -
  have t: "truthy (editingNoteId editingAC)"
    by (simp add: editingAC_eval truthy_def)
  have k: "1 < length (notes_state editingAC)"
    by (simp add: editingAC_eval)
  have i: "Some (id_note (notes_state editingAC ! 1)) = editingNoteId editingAC"
    by (simp add: editingAC_eval noteA_def)
  have b: "trim (newNoteContent editingAC) \<noteq> []"
    by (simp add: editingAC_eval trim_oat)
  have d: "distinct (ids editingAC)"
    by (simp add: editingAC_eval noteA_def noteC_def)
  note inst = handleSaveNote_edit_changes_only_content
    [OF t k, of 1709251300000 1709251300000 random_zero]
  have "notes_state (handleSaveNote 1709251300000 1709251300000 random_zero editingAC) ! 1
      = (notes_state editingAC ! 1)\<lparr>content := newNoteContent editingAC\<rparr>"
    using inst i b by blast
  then have 1: "notes_state (handleSaveNote 1709251300000 1709251300000 random_zero editingAC) ! 1
      = noteA\<lparr>content := ''Buy oat milk''\<rparr>"
    by (simp add: editingAC_eval)
  have "\<forall>j < length (notes_state editingAC). j \<noteq> 1 \<longrightarrow>
      notes_state (handleSaveNote 1709251300000 1709251300000 random_zero editingAC) ! j
        = notes_state editingAC ! j"
    using inst i d by blast
  then have "0 < length (notes_state editingAC) \<longrightarrow> (0::nat) \<noteq> 1 \<longrightarrow>
      notes_state (handleSaveNote 1709251300000 1709251300000 random_zero editingAC) ! 0
        = notes_state editingAC ! 0"
    by (rule spec)
  moreover have "0 < length (notes_state editingAC)"
    by (simp add: editingAC_eval)
  ultimately have "notes_state (handleSaveNote 1709251300000 1709251300000 random_zero editingAC) ! 0
      = notes_state editingAC ! 0"
    by simp
  then have 0: "notes_state (handleSaveNote 1709251300000 1709251300000 random_zero editingAC) ! 0
      = noteC"
    by (simp add: editingAC_eval)
  from t k i b d 1 0 show ?thesis by blast
qed

text \<open>
  The claim as first stated fails on a store in which two notes have one \<open>id\<close>: an edit of
  the newer note also replaces the content of the older one, which is another note of the
  store.
\<close>

theorem handleSaveNote_edit_rewrites_other_counterexample:
  "notes_state dupEditing = [noteB, noteA]
   \<and> actionNote dupEditing = Some noteB
   \<and> truthy (editingNoteId dupEditing)
   \<and> notes_state (handleSaveNote 1709251300000 1709251300000 random_zero dupEditing)
       = [noteB\<lparr>content := ''Both''\<rparr>, noteA\<lparr>content := ''Both''\<rparr>]
   \<and> noteA\<lparr>content := ''Both''\<rparr> \<noteq> noteA"
  by (simp add: dupEditing_eval handleSaveNote_def trim_Both truthy_def)
     (simp add: noteA_def noteB_def)

section \<open>C6: the colour of a new note\<close>

lemma getRandomColorFrom_available:
  assumes "filter (\<lambda>c. c \<noteq> e) palette \<noteq> []"
  shows "getRandomColorFrom palette r (Some e) \<in> set palette
    \<and> getRandomColorFrom palette r (Some e) \<noteq> e"
proof -
  let ?av = "filter (\<lambda>c. c \<noteq> e) palette"
  have "random_index r (length ?av) < length ?av"
    using assms by (intro random_index_less) simp
  then have "?av ! random_index r (length ?av) \<in> set ?av"
    by (rule nth_mem)
  moreover have "getRandomColorFrom palette r (Some e) = ?av ! random_index r (length ?av)"
    using assms by (simp add: getRandomColorFrom_def Let_def)
  ultimately show ?thesis by simp
qed

lemma getRandomColorFrom_fallback:
  assumes "filter (\<lambda>c. c \<noteq> e) palette = []"
  shows "getRandomColorFrom palette r (Some e) = palette ! random_index r (length palette)"
  using assms by (simp add: getRandomColorFrom_def Let_def)

lemma COLORS_exclusion_not_empty: "filter (\<lambda>c. c \<noteq> e) COLORS \<noteq> []"
  by (cases e) (simp_all add: COLORS_def)

lemma str_clockD: "string_of_int 1709251140000 = ''1709251140000''"
  by (simp add: string_of_int_def string_of_nat.simps digit_char_def)

lemma run_createD: "run stateA createD = stateA\<lparr>notes_state := [noteD, noteA], newNoteColor := Pink\<rparr>"
  by (simp add: run_def createD_def openNewNoteModal_def changeContent_def handleSaveNote_def
      getNotes_A color_yellow trim_B truthy_def str_clockD iso_day1 random_half.rep_eq
      stateA_def noteD_def initialState_def) (simp add: noteA_def color_yellow)

lemma getNotes_DA: "getNotesForDate [noteD, noteA] day1 = [noteA, noteD]"
  by (simp add: getNotesForDate_def array_sort_def iso_day1 noteA_def noteD_def Let_def)

lemma head_is_last_created:
  assumes "newestFirst ns" and "getNotesForDate ns d = m # rest"
  shows "lastCreatedOn ns (toISODateString d) = Some m"
proof -
  let ?sel = "filter (\<lambda>n. date n = toISODateString d) ns"
  have "newestFirst ?sel"
    using assms(1) by (rule sorted_wrt_filter)
  then have "sorted (map (\<lambda>n. - timestamp n) ?sel)"
    by (simp add: sorted_map)
  then have "sort_key (\<lambda>n. - timestamp n) ?sel = ?sel"
    by (rule sort_key_id_if_sorted)
  with assms(2) have "?sel = m # rest"
    by (simp add: getNotesForDate_sort_key)
  then show ?thesis
    by (simp add: lastCreatedOn_def)
qed

lemma stamps_save_create:
  "creates s \<Longrightarrow> map timestamp (notes_state (handleSaveNote a b r s)) = b # map timestamp (notes_state s)"
  by (simp add: notes_state_save_create)

lemma stamps_save_other:
  "\<not> creates s \<Longrightarrow> map timestamp (notes_state (handleSaveNote a b r s)) = map timestamp (notes_state s)"
proof (cases "trim (newNoteContent s) = []")
  case True
  then show ?thesis by (simp add: save_rejected)
next
  case False
  assume "\<not> creates s"
  with False have "truthy (editingNoteId s)" by (simp add: creates_def)
  with False show ?thesis
    by (simp add: notes_state_save_edit comp_def if_distrib [of timestamp] cong: if_cong)
qed

lemma newestFirst_stamps:
  "newestFirst ns = sorted_wrt (\<lambda>x y. y \<le> x) (map timestamp ns)"
  by (simp add: sorted_wrt_map)

lemma newestFirst_confirmDelete:
  "newestFirst (notes_state s) \<Longrightarrow> newestFirst (notes_state (confirmDelete s))"
  by (simp add: notes_state_confirmDelete sorted_wrt_filter split: option.split)

lemma set_confirmDelete: "set (notes_state (confirmDelete s)) \<subseteq> set (notes_state s)"
  by (auto simp add: notes_state_confirmDelete split: option.split)

lemma createStamps_append:
  "createStamps s (es @ es') = createStamps s es @ createStamps (run s es) es'"
proof (induction es arbitrary: s)
  case Nil
  then show ?case by (simp add: run_Nil)
next
  case (Cons e es)
  then show ?case by (cases e) (simp_all add: run_Cons)
qed

lemma newestFirst_run:
  "newestFirst (notes_state s) \<Longrightarrow> \<forall>t \<in> set (map timestamp (notes_state s)). t \<le> lo
    \<Longrightarrow> sorted (createStamps s es) \<Longrightarrow> \<forall>t \<in> set (createStamps s es). lo \<le> t
    \<Longrightarrow> newestFirst (notes_state (run s es))"
proof (induction es arbitrary: s lo)
  case Nil
  then show ?case by (simp add: run_Nil)
next
  case (Cons e es)
  show ?case
  proof (cases e)
    case (SaveNote a b r)
    let ?s' = "handleSaveNote a b r s"
    show ?thesis
    proof (cases "creates s")
      case True
      from True Cons.prems SaveNote
      have st: "sorted (createStamps ?s' es)" "\<forall>t \<in> set (createStamps ?s' es). b \<le> t" "lo \<le> b"
        by auto
      have m: "map timestamp (notes_state ?s') = b # map timestamp (notes_state s)"
        using True by (rule stamps_save_create)
      have "\<forall>t \<in> set (map timestamp (notes_state s)). t \<le> b"
        using Cons.prems(2) st(3) by auto
      moreover have "sorted_wrt (\<lambda>x y. y \<le> x) (map timestamp (notes_state s))"
        using Cons.prems(1) by (simp add: newestFirst_stamps)
      ultimately have "sorted_wrt (\<lambda>x y. y \<le> x) (map timestamp (notes_state ?s'))"
        and b: "\<forall>t \<in> set (map timestamp (notes_state ?s')). t \<le> b"
        unfolding m by simp_all
      then have "newestFirst (notes_state ?s')"
        by (simp add: newestFirst_stamps)
      from this b st(1,2) have "newestFirst (notes_state (run ?s' es))"
        by (rule Cons.IH)
      with SaveNote show ?thesis by (simp add: run_Cons)
    next
      case False
      have m: "map timestamp (notes_state ?s') = map timestamp (notes_state s)"
        using False by (rule stamps_save_other)
      have "newestFirst (notes_state ?s')"
        using Cons.prems(1) unfolding newestFirst_stamps m .
      moreover have "\<forall>t \<in> set (map timestamp (notes_state ?s')). t \<le> lo"
        using Cons.prems(2) unfolding m .
      moreover from False Cons.prems SaveNote
      have "sorted (createStamps ?s' es)" "\<forall>t \<in> set (createStamps ?s' es). lo \<le> t"
        by simp_all
      ultimately have "newestFirst (notes_state (run ?s' es))"
        by (rule Cons.IH)
      with SaveNote show ?thesis by (simp add: run_Cons)
    qed
  next
    case ConfirmDelete
    have "newestFirst (notes_state (confirmDelete s))"
      using Cons.prems(1) by (rule newestFirst_confirmDelete)
    moreover have "\<forall>t \<in> set (map timestamp (notes_state (confirmDelete s))). t \<le> lo"
      using Cons.prems(2) set_confirmDelete [of s] by auto
    moreover from Cons.prems ConfirmDelete
    have "sorted (createStamps (confirmDelete s) es)"
      "\<forall>t \<in> set (createStamps (confirmDelete s) es). lo \<le> t"
      by simp_all
    ultimately have "newestFirst (notes_state (run (confirmDelete s) es))"
      by (rule Cons.IH)
    with ConfirmDelete show ?thesis by (simp add: run_Cons)
  qed (use Cons.prems Cons.IH [of "step s e" lo] in
      \<open>simp_all add: run_Cons notes_state_step del: step.simps\<close>)
qed

lemma newestFirst_run_initial:
  assumes "sorted (createStamps (initialState d) es)"
  shows "newestFirst (notes_state (run (initialState d) es))"
proof -
  obtain lo where lo: "\<forall>u \<in> set (createStamps (initialState d) es). lo \<le> u"
  proof (cases "createStamps (initialState d) es")
    case Nil
    then have "\<forall>u \<in> set (createStamps (initialState d) es). 0 \<le> u" by simp
    then show ?thesis by (rule that)
  next
    case (Cons t ts)
    with assms have "\<forall>u \<in> set (createStamps (initialState d) es). t \<le> u" by auto
    then show ?thesis by (rule that)
  qed
  have n: "newestFirst (notes_state (initialState d))"
    by (simp add: initialState_def)
  have b: "\<forall>t \<in> set (map timestamp (notes_state (initialState d))). t \<le> lo"
    by (simp add: initialState_def)
  show ?thesis
    by (rule newestFirst_run [OF n b assms lo])
qed

lemma getNotes_CA: "getNotesForDate [noteC, noteA] day1 = [noteC, noteA]"
  by (simp add: getNotesForDate_def array_sort_def iso_day1 noteA_def noteC_def Let_def)

lemma stamps_initial_createA:
  "createStamps (initialState day1) createA = [1709251200000]"
  by (simp add: createA_def creates_def openNewNoteModal_def changeContent_def trim_A truthy_def
      initialState_def)

lemma stamps_stateA_createC:
  "createStamps stateA createC = [1709251260001]"
  by (simp add: createC_def creates_def openNewNoteModal_def changeContent_def trim_C truthy_def
      stateA_def initialState_def)

lemma color_pink: "getRandomColor random_zero (Some Pink) = Yellow"
  by (simp add: getRandomColor_def getRandomColorFrom_def COLORS_def random_index_def random_zero.rep_eq)

text \<open>
  C6, as amended. When the selected date has at least one note, let \<open>m\<close> be the first note
  of its list: a note of the store on that date whose timestamp no note of that date
  exceeds and, among the notes of that date with its timestamp, the first in the store.
  For every outcome \<open>r\<close> of the random source the colour chosen when the editor opens for a
  new note is a colour of the palette other than the colour of \<open>m\<close>. The note \<open>m\<close> is the most
  recently created note of that date whenever the timestamps of the store never increase
  from front to back, and so in every state reached from the empty store by a run in
  which the clock values read for the timestamps of the created notes never decrease. The
  palette has six entries, so excluding one colour never empties it. For any palette: if
  it has a colour other than the excluded one, the pick is from the palette and is not
  the excluded colour; if every entry is the excluded colour, the pick is an
  unconstrained random entry of the palette.
\<close>

theorem openNewNoteModal_color_differs:
  assumes "getNotesForDate (notes_state s) (currentDate s) = m # rest"
  shows "newNoteColor (openNewNoteModal r s) \<noteq> color m
    \<and> newNoteColor (openNewNoteModal r s) \<in> set COLORS
    \<and> m \<in> set (notes_state s) \<and> date m = toISODateString (currentDate s)
    \<and> (\<forall>n \<in> set (notes_state s).
          date n = toISODateString (currentDate s) \<longrightarrow> timestamp n \<le> timestamp m)
    \<and> filter (\<lambda>n. timestamp n = timestamp m)
          (filter (\<lambda>n. date n = toISODateString (currentDate s)) (notes_state s))
        = m # filter (\<lambda>n. timestamp n = timestamp m) rest
    \<and> (newestFirst (notes_state s) \<longrightarrow>
          lastCreatedOn (notes_state s) (toISODateString (currentDate s)) = Some m)
    \<and> (s = run (initialState d) es \<and> sorted (createStamps (initialState d) es) \<longrightarrow>
          lastCreatedOn (notes_state s) (toISODateString (currentDate s)) = Some m)
    \<and> filter (\<lambda>c. c \<noteq> e) COLORS \<noteq> []
    \<and> ((\<exists>c \<in> set palette. c \<noteq> e) \<longrightarrow>
          getRandomColorFrom palette r (Some e) \<in> set palette
          \<and> getRandomColorFrom palette r (Some e) \<noteq> e)
    \<and> ((\<forall>c \<in> set palette. c = e) \<longrightarrow>
          getRandomColorFrom palette r (Some e) = palette ! random_index r (length palette))"
proof -
  have "newNoteColor (openNewNoteModal r s) = getRandomColor r (Some (color m))"
    using assms by (simp add: openNewNoteModal_def Let_def)
  then have 1: "newNoteColor (openNewNoteModal r s) \<noteq> color m
      \<and> newNoteColor (openNewNoteModal r s) \<in> set COLORS"
    using getRandomColorFrom_available [OF COLORS_exclusion_not_empty [of "color m"], of r]
    by (simp add: getRandomColor_def)
  have 2: "getRandomColorFrom palette r (Some e) \<in> set palette
          \<and> getRandomColorFrom palette r (Some e) \<noteq> e" if "\<exists>c \<in> set palette. c \<noteq> e"
    using that by (intro getRandomColorFrom_available) (simp add: filter_empty_conv)
  have 3: "getRandomColorFrom palette r (Some e) = palette ! random_index r (length palette)"
    if "\<forall>c \<in> set palette. c = e"
    using that by (intro getRandomColorFrom_fallback) (simp add: filter_empty_conv)
  have 4: "lastCreatedOn (notes_state s) (toISODateString (currentDate s)) = Some m"
    if "newestFirst (notes_state s)"
    using that assms by (rule head_is_last_created)
  have 5: "lastCreatedOn (notes_state s) (toISODateString (currentDate s)) = Some m"
    if "s = run (initialState d) es \<and> sorted (createStamps (initialState d) es)"
  proof -
    from that have "newestFirst (notes_state s)"
      using newestFirst_run_initial [of d es] by simp
    then show ?thesis by (rule 4)
  qed
  from 1 2 3 4 5 getNotesForDate_head [OF assms] COLORS_exclusion_not_empty [of e]
  show ?thesis by blast
qed

theorem openNewNoteModal_color_witness:
  "getNotesForDate (notes_state (run (initialState day1) (createA @ createC)))
       (currentDate (run (initialState day1) (createA @ createC))) = noteC # [noteA]
   \<and> sorted (createStamps (initialState day1) (createA @ createC))
   \<and> lastCreatedOn (notes_state (run (initialState day1) (createA @ createC)))
       (toISODateString (currentDate (run (initialState day1) (createA @ createC)))) = Some noteC
   \<and> newNoteColor (openNewNoteModal random_zero (run (initialState day1) (createA @ createC)))
       \<noteq> color noteC
   \<and> newNoteColor (openNewNoteModal random_zero (run (initialState day1) (createA @ createC)))
       = Yellow
   \<and> color noteC = Pink
   \<and> getRandomColorFrom [Yellow] random_half (Some Yellow) = Yellow
   \<and> getRandomColorFrom [Yellow, Blue] random_half (Some Yellow) = Blue"
proof -
  let ?s = "run (initialState day1) (createA @ createC)"
  have s: "?s = stateA\<lparr>notes_state := [noteC, noteA], newNoteColor := Pink\<rparr>"
    by (simp add: run_append run_createA run_createC)
  have g: "getNotesForDate (notes_state ?s) (currentDate ?s) = noteC # [noteA]"
    unfolding s by (simp add: stateA_def initialState_def getNotes_CA)
  have c: "sorted (createStamps (initialState day1) (createA @ createC))"
    by (simp add: createStamps_append run_createA stamps_initial_createA stamps_stateA_createC)
  note inst = openNewNoteModal_color_differs [OF g]
  have "?s = run (initialState day1) (createA @ createC)
      \<and> sorted (createStamps (initialState day1) (createA @ createC)) \<longrightarrow>
      lastCreatedOn (notes_state ?s) (toISODateString (currentDate ?s)) = Some noteC"
    using inst [where d = day1 and es = "createA @ createC"] by blast
  with c have l: "lastCreatedOn (notes_state ?s) (toISODateString (currentDate ?s)) = Some noteC"
    by blast
  have n: "newNoteColor (openNewNoteModal random_zero ?s) \<noteq> color noteC"
    using inst [where r = random_zero] by blast
  have y: "newNoteColor (openNewNoteModal random_zero ?s) = Yellow"
    using g by (simp add: openNewNoteModal_def Let_def) (simp add: noteC_def color_pink)
  have p: "color noteC = Pink"
    by (simp add: noteC_def)
  have f1: "getRandomColorFrom [Yellow] random_half (Some Yellow) = Yellow"
    using inst [where r = random_half and palette = "[Yellow]" and e = Yellow]
    by (simp add: random_index_def random_half.rep_eq)
  have f2: "getRandomColorFrom [Yellow, Blue] random_half (Some Yellow) = Blue"
    using inst [where r = random_half and palette = "[Yellow, Blue]" and e = Yellow]
    by (simp add: getRandomColorFrom_def random_index_def random_half.rep_eq)
  from g c l n y p f1 f2 show ?thesis by blast
qed

text \<open>
  The claim as first stated fails when the clock has been set back between two creations:
  the note created last has the smaller timestamp, the colour of the older note is the one
  excluded, and the colour chosen is that of the note created last.
\<close>

theorem openNewNoteModal_repeats_last_created_counterexample:
  "notes_state (run (initialState day1) (createA @ createD)) = [noteD, noteA]
   \<and> lastCreatedOn (notes_state (run (initialState day1) (createA @ createD)))
       (toISODateString (currentDate (run (initialState day1) (createA @ createD)))) = Some noteD
   \<and> newNoteColor (openNewNoteModal random_zero (run (initialState day1) (createA @ createD)))
       = color noteD"
proof -
  have s: "run (initialState day1) (createA @ createD)
      = stateA\<lparr>notes_state := [noteD, noteA], newNoteColor := Pink\<rparr>"
    by (simp add: run_append run_createA run_createD)
  have 1: "lastCreatedOn [noteD, noteA] (toISODateString day1) = Some noteD"
    by (simp add: lastCreatedOn_def iso_day1 noteD_def)
  have 2: "newNoteColor (openNewNoteModal random_zero
        (stateA\<lparr>notes_state := [noteD, noteA], newNoteColor := Pink\<rparr>)) = Pink"
    by (simp add: openNewNoteModal_def Let_def stateA_def initialState_def getNotes_DA)
       (simp add: noteA_def color_yellow)
  have 3: "color noteD = Pink"
    by (simp add: noteD_def)
  show ?thesis
    unfolding s using 1 2 3 by (simp add: stateA_def initialState_def)
qed

section \<open>C7: the visibility event\<close>

text \<open>
  C7, as amended. On a visibility event that finds the page visible, the selected date
  becomes the current instant exactly when the local date string of the current instant
  differs from that of the selected date, and is unchanged when the strings are equal. The
  strings are equal exactly when the local year, month and day are equal, so the selected
  date becomes today when today is a later day than the selected one and also when the
  selected day lies in the future. An event that finds the page hidden changes nothing.
\<close>

theorem handleVisibilityChange_today_iff_strings_differ:
  "currentDate (handleVisibilityChange True today s)
     = (if toISODateString today \<noteq> toISODateString (currentDate s) then today else currentDate s)
   \<and> (toISODateString today = toISODateString (currentDate s) \<longleftrightarrow>
        getFullYear today = getFullYear (currentDate s)
        \<and> getMonth today = getMonth (currentDate s)
        \<and> getDate today = getDate (currentDate s))
   \<and> (dayBefore (currentDate s) today \<longrightarrow> currentDate (handleVisibilityChange True today s) = today)
   \<and> (dayBefore today (currentDate s) \<longrightarrow> currentDate (handleVisibilityChange True today s) = today)
   \<and> handleVisibilityChange False today s = s"
proof -
  have same: "toISODateString today = toISODateString (currentDate s)"
    if "getFullYear today = getFullYear (currentDate s)
        \<and> getMonth today = getMonth (currentDate s)
        \<and> getDate today = getDate (currentDate s)"
    using that by (simp add: toISODateString_def)
  have iff: "toISODateString today = toISODateString (currentDate s) \<longleftrightarrow>
        getFullYear today = getFullYear (currentDate s)
        \<and> getMonth today = getMonth (currentDate s)
        \<and> getDate today = getDate (currentDate s)"
    using toISODateString_inj [of today "currentDate s"] same by blast
  have cur: "currentDate (handleVisibilityChange True today s)
     = (if toISODateString today \<noteq> toISODateString (currentDate s) then today else currentDate s)"
    by (simp add: handleVisibilityChange_def Let_def)
  have before: "toISODateString today \<noteq> toISODateString (currentDate s)"
    if "dayBefore (currentDate s) today \<or> dayBefore today (currentDate s)"
    using that toISODateString_inj [of today "currentDate s"]
    unfolding dayBefore_def by linarith
  have hidden: "handleVisibilityChange False today s = s"
    by (simp add: handleVisibilityChange_def)
  show ?thesis
    using iff cur before hidden by presburger
qed

theorem handleVisibilityChange_witness:
  "dayBefore (currentDate stateA) day2
   \<and> currentDate (handleVisibilityChange True day2 stateA) = day2
   \<and> dayBefore day2 (currentDate futureSelected)
   \<and> currentDate (handleVisibilityChange True day2 futureSelected) = day2"
proof -
  have 1: "dayBefore (currentDate stateA) day2"
    by (simp add: stateA_def initialState_def dayBefore_def day1_def day2_def)
  have 2: "dayBefore day2 (currentDate futureSelected)"
    by (simp add: futureSelected_eval dayBefore_def day5_def day2_def)
  have "dayBefore (currentDate stateA) day2
      \<longrightarrow> currentDate (handleVisibilityChange True day2 stateA) = day2"
    using handleVisibilityChange_today_iff_strings_differ [of day2 stateA] by blast
  with 1 have 3: "currentDate (handleVisibilityChange True day2 stateA) = day2"
    by blast
  have "dayBefore day2 (currentDate futureSelected)
      \<longrightarrow> currentDate (handleVisibilityChange True day2 futureSelected) = day2"
    using handleVisibilityChange_today_iff_strings_differ [of day2 futureSelected] by blast
  with 2 have 4: "currentDate (handleVisibilityChange True day2 futureSelected) = day2"
    by blast
  from 1 2 3 4 show ?thesis by blast
qed

text \<open>
  The claim as first stated fails: with 5 March selected in the calendar and the page
  becoming visible on 2 March, today has not advanced past the selected date, and the
  selected date changes all the same.
\<close>

theorem handleVisibilityChange_counterexample:
  "\<not> dayBefore (currentDate futureSelected) day2
   \<and> currentDate (handleVisibilityChange True day2 futureSelected) \<noteq> currentDate futureSelected"
  by (simp add: futureSelected_eval handleVisibilityChange_def iso_day2 iso_day5 Let_def)
     (simp add: dayBefore_def day2_def day5_def)


section \<open>C8: the cursor of the Daily Stack\<close>

text \<open>
  C8. For a list of at least one note and every value of the cursor, the active note is
  the element at the cursor modulo the count and the background note the element at the
  cursor plus one modulo the count, both within the list, and the long press hands over the
  active note; a drag that ends further than 100 from its start, to either side,
  increments the cursor by exactly one, and a shorter one changes nothing; with one note
  the active and the background note are the same; with no note the placeholder is
  rendered, there is no active note, a drag changes nothing and no long press is handed
  over.
\<close>

theorem DailyStack_cursor_modulo:
  "(ns \<noteq> [] \<longrightarrow>
      DailyStack ns st = Cards (ns ! (currentIndex st mod length ns))
                               (ns ! ((currentIndex st + 1) mod length ns)) (1 < length ns)
      \<and> currentIndex st mod length ns < length ns
      \<and> (currentIndex st + 1) mod length ns < length ns
      \<and> longPress ns st = Some (ns ! (currentIndex st mod length ns))
      \<and> (\<bar>x\<bar> > 100 \<longrightarrow> currentIndex (dragEnd ns x st) = currentIndex st + 1)
      \<and> (\<not> \<bar>x\<bar> > 100 \<longrightarrow> dragEnd ns x st = st))
   \<and> (\<bar>x\<bar> > 100 \<longrightarrow> currentIndex (handleDragEnd x st) = currentIndex st + 1)
   \<and> (length ns = 1 \<longrightarrow> activeNote (DailyStack ns st) = nextNote (DailyStack ns st))
   \<and> (ns = [] \<longrightarrow> DailyStack ns st = Placeholder \<and> dragEnd ns x st = st \<and> longPress ns st = None)"
  by (simp add: DailyStack_def dragEnd_def longPress_def handleDragEnd_def Let_def)

theorem DailyStack_witness:
  "DailyStack [noteC, noteA] \<lparr>currentIndex = 3, direction = 0\<rparr> = Cards noteA noteC True
   \<and> currentIndex (dragEnd [noteC, noteA] (- 150) \<lparr>currentIndex = 3, direction = 0\<rparr>) = 4
   \<and> dragEnd [noteC, noteA] 100 \<lparr>currentIndex = 3, direction = 0\<rparr>
       = \<lparr>currentIndex = 3, direction = 0\<rparr>
   \<and> activeNote (DailyStack [noteA] \<lparr>currentIndex = 3, direction = 0\<rparr>)
       = nextNote (DailyStack [noteA] \<lparr>currentIndex = 3, direction = 0\<rparr>)
   \<and> DailyStack [] \<lparr>currentIndex = 3, direction = 0\<rparr> = Placeholder
   \<and> longPress [] \<lparr>currentIndex = 3, direction = 0\<rparr> = None"
proof -
  have "(3::nat) mod Suc (Suc 0) = 1" and "(4::nat) mod Suc (Suc 0) = 0"
    by presburger+
  then show ?thesis
    using DailyStack_cursor_modulo [of "[noteC, noteA]" "\<lparr>currentIndex = 3, direction = 0\<rparr>" "- 150"]
      DailyStack_cursor_modulo [of "[noteC, noteA]" "\<lparr>currentIndex = 3, direction = 0\<rparr>" "100"]
      DailyStack_cursor_modulo [of "[noteA]" "\<lparr>currentIndex = 3, direction = 0\<rparr>" "150"]
      DailyStack_cursor_modulo [of "[]" "\<lparr>currentIndex = 3, direction = 0\<rparr>" "150"]
    by simp
qed

section \<open>C9: Keep and dismissal\<close>

lemma dismiss_closes_without_mutation:
  "notes_state (keepIt s) = notes_state s \<and> \<not> isDeleteConfirmOpen (keepIt s)
   \<and> isDrawerOpen (keepIt s) = isDrawerOpen s
   \<and> notes_state (dismissDrawer s) = notes_state s \<and> \<not> isDrawerOpen (dismissDrawer s)
   \<and> isDeleteConfirmOpen (dismissDrawer s) = isDeleteConfirmOpen s"
  by (simp add: keepIt_def dismissDrawer_def)


text \<open>
  C9. Keep It, and a click on the backdrop of the confirmation or of the drawer, close
  what they close and leave the store alone (the lemma above), and they leave the action
  target in place: after a long press on a note, Delete and Keep It, \<open>actionNote\<close> still
  holds the note, as it does after a long press and a click on the backdrop of the drawer.
  Discard, on the same state, clears it.
\<close>

theorem keepIt_leaves_actionNote:
  "actionNote (keepIt (run stateA [LongPressNote noteA, DeleteAction])) = Some noteA
   \<and> actionNote (dismissDrawer (run stateA [LongPressNote noteA])) = Some noteA
   \<and> actionNote (confirmDelete (run stateA [LongPressNote noteA, DeleteAction])) = None"
  by (simp add: run_def keepIt_def dismissDrawer_def confirmDelete_def handleLongPressNote_def
      handleDeleteAction_def)


section \<open>C10: saving an edit of a note that is gone\<close>

text \<open>
  C10. A save in edit mode whose \<open>id\<close> no note of the store has, with a buffer that is not
  empty when trimmed, leaves the store unchanged and closes the editor: the modal is
  closed, the buffer is empty and no edit target remains.
\<close>

theorem handleSaveNote_edit_absent_id:
  assumes "truthy (editingNoteId s)"
    and "editingNoteId s \<notin> Some ` id_note ` set (notes_state s)"
    and "trim (newNoteContent s) \<noteq> []"
  shows "notes_state (handleSaveNote nowId nowTs r s) = notes_state s
    \<and> isModalOpen (handleSaveNote nowId nowTs r s) = False
    \<and> newNoteContent (handleSaveNote nowId nowTs r s) = []
    \<and> editingNoteId (handleSaveNote nowId nowTs r s) = None"
proof -
  have "map (\<lambda>n. if Some (id_note n) = editingNoteId s then n\<lparr>content := newNoteContent s\<rparr> else n)
          (notes_state s) = notes_state s"
    using assms(2) by (intro map_idI) (auto simp add: image_iff)
  then show ?thesis
    using assms(1,3) by (simp add: handleSaveNote_def)
qed

theorem handleSaveNote_edit_absent_id_witness:
  "truthy (editingNoteId orphanEdit)
   \<and> editingNoteId orphanEdit \<notin> Some ` id_note ` set (notes_state orphanEdit)
   \<and> trim (newNoteContent orphanEdit) \<noteq> []
   \<and> notes_state (handleSaveNote 1709251300000 1709251300000 random_zero orphanEdit) = []
   \<and> \<not> isModalOpen (handleSaveNote 1709251300000 1709251300000 random_zero orphanEdit)"
proof -
  have t: "truthy (editingNoteId orphanEdit)"
    by (simp add: orphanEdit_eval truthy_def)
  have a: "editingNoteId orphanEdit \<notin> Some ` id_note ` set (notes_state orphanEdit)"
    by (simp add: orphanEdit_eval)
  have b: "trim (newNoteContent orphanEdit) \<noteq> []"
    by (simp add: orphanEdit_eval trim_oat)
  have n: "notes_state orphanEdit = []"
    by (simp add: orphanEdit_eval)
  show ?thesis
    using handleSaveNote_edit_absent_id [OF t a b, of 1709251300000 1709251300000 random_zero] t a b n
    by simp
qed

end
